theory Spec2Isabelle
  imports Main "HOL-Library.Word" "HOL-Library.Multiset"
begin

section \<open>Data model\<close>

text \<open>
  A JavaScript string is a sequence of 16-bit code units. Amounts are JavaScript numbers
  with integer values (the adapters check each to be a safe integer); they are modelled
  as \<open>int\<close>. The arithmetic of JavaScript is that of IEEE 754 doubles: it is exact as long
  as every result stays within \<open>2^53\<close> in absolute value and rounds beyond. The section on
  JavaScript numbers defines the rounding; \<open>selectUTXOs\<close> and \<open>roundPerKB\<close> are stated
  with it. The fee fitting, the builder and the simulation are stated in exact integer
  arithmetic, which is what the doubles compute while every quantity (the sum of the
  values of the UTXOs, the amount plus the fee) stays within \<open>2^53\<close>.
\<close>

type_synonym jsstring = "16 word list"

type_synonym script = "8 word list"

text \<open>The \<open>UTXO\<close> interface of \<open>shared/types\<close>; the field \<open>val\<close> is the source's \<open>value\<close>.\<close>

record utxo =
  tx_hash :: jsstring
  tx_pos :: int
  height :: int
  val :: int

datatype error =
    InvalidAmount
  | InvalidAddress
  | NoUtxosAvailable
  | InsufficientFunds int int
  | InsufficientFundsAfterFee int int
  | TxVerificationAddress jsstring jsstring
  | TxVerificationValue int int
  | LibraryError

section \<open>JavaScript numbers\<close>

text \<open>
  The doubles with an integer value are the integers \<open>m * 2^e\<close> with \<open>\<bar>m\<bar> \<le> 2^53\<close>. Between
  \<open>2^53 * q\<close> and \<open>2^54 * q\<close>, for a power of two \<open>q\<close>, neighbouring doubles are \<open>2 * q\<close>
  apart. \<open>spacingFrom b q n\<close> is the distance between neighbouring doubles at the
  quotient \<open>n / b\<close> when this is at least \<open>2^52\<close> (\<open>b = 1\<close> for an integer): the least
  power of two from \<open>q\<close> on with \<open>n / b < 2^53 * q\<close>.
\<close>

function spacingFrom :: "int \<Rightarrow> int \<Rightarrow> int \<Rightarrow> int" where
  "spacingFrom b q n =
     (if 0 < b \<and> 0 < q \<and> b * 2 ^ 53 * q \<le> n then spacingFrom b (2 * q) n else q)"
  by pat_completeness auto
termination
proof (relation "measure (\<lambda>(b, q, n). nat (n - b * 2 ^ 53 * q + 1))")
  show "wf (measure (\<lambda>(b, q, n). nat (n - b * 2 ^ 53 * q + 1)))"
    by simp
next
  fix b q n :: int
  assume a: "0 < b \<and> 0 < q \<and> b * 2 ^ 53 * q \<le> n"
  then have "0 < b * q" by simp
  then have "1 \<le> 9007199254740992 * (b * q)" by linarith
  with a show "((b, 2 * q, n), b, q, n) \<in> measure (\<lambda>(b, q, n). nat (n - b * 2 ^ 53 * q + 1))"
    by simp
qed

text \<open>
  Below \<open>2^52\<close> the doubles are finer than the integers: \<open>scalingFrom b p n\<close> is the least
  power of two \<open>p\<close> from the given one on with \<open>2^52 \<le> (n / b) * p\<close>, so that the doubles
  next to the quotient \<open>n / b\<close> are the multiples of \<open>1 / p\<close>. It is 1 when the quotient
  is at least \<open>2^52\<close>, and when \<open>n\<close> is 0.
\<close>

function scalingFrom :: "int \<Rightarrow> int \<Rightarrow> int \<Rightarrow> int" where
  "scalingFrom b p n =
     (if 0 < n \<and> 0 < p \<and> n * p < b * 2 ^ 52 then scalingFrom b (2 * p) n else p)"
  by pat_completeness auto
termination
proof (relation "measure (\<lambda>(b, p, n). nat (b * 2 ^ 52 - n * p))")
  show "wf (measure (\<lambda>(b, p, n). nat (b * 2 ^ 52 - n * p)))"
    by simp
next
  fix b p n :: int
  assume a: "0 < n \<and> 0 < p \<and> n * p < b * 2 ^ 52"
  then have "0 < n * p" by simp
  with a show "((b, 2 * p, n), b, p, n) \<in> measure (\<lambda>(b, p, n). nat (b * 2 ^ 52 - n * p))"
    by simp
qed

declare spacingFrom.simps [simp del]

declare scalingFrom.simps [simp del]

text \<open>
  The quotient \<open>a / b\<close> of a non-negative \<open>a\<close> by a positive \<open>b\<close>, rounded to the nearest
  integer, a tie going to the even one.
\<close>

definition roundHalfEven :: "int \<Rightarrow> int \<Rightarrow> int" where
  "roundHalfEven a b =
     (let d = a div b; r = a mod b
      in if 2 * r < b then d else if b < 2 * r then d + 1 else if even d then d else d + 1)"

text \<open>
  The double nearest to the integer \<open>x\<close>, and the sum \<open>a + b\<close> of two integer-valued
  doubles as JavaScript computes it. (Numbers beyond the largest double, about
  \<open>1.8 * 10^308\<close>, are outside the model.)
\<close>

definition toDouble :: "int \<Rightarrow> int" where
  "toDouble x = (let q = spacingFrom 1 1 \<bar>x\<bar> in sgn x * (roundHalfEven \<bar>x\<bar> q * q))"

definition jsAdd :: "int \<Rightarrow> int \<Rightarrow> int" where
  "jsAdd a b = toDouble (a + b)"

text \<open>
  \<open>Math.round(a / b)\<close> for integer-valued doubles \<open>a\<close> and \<open>b\<close> with \<open>b\<close> positive. The
  division returns the double nearest to the quotient: a multiple of the spacing \<open>q\<close>
  when the quotient is at least \<open>2^52\<close> (an integer, which \<open>Math.round\<close> returns as it
  is), and otherwise \<open>m / p\<close> for the significand \<open>m\<close> and the scaling \<open>p\<close>;
  \<open>Math.round\<close> then returns the largest integer not above \<open>m / p + 1 / 2\<close>.
\<close>

definition roundOfQuotient :: "int \<Rightarrow> int \<Rightarrow> int" where
  "roundOfQuotient a b =
     (let n = \<bar>a\<bar>; p = scalingFrom b 1 n
      in if p = 1
         then (let q = spacingFrom b 1 n in sgn a * (roundHalfEven n (b * q) * q))
         else (sgn a * roundHalfEven (n * p) b + p div 2) div p)"

section \<open>UTXO selection (\<open>core/transaction.ts\<close>)\<close>

definition DUST_THRESHOLD :: int where
  "DUST_THRESHOLD = 1000"

definition MIN_FEE :: int where
  "MIN_FEE = 10000"

definition estimateTxSize :: "int \<Rightarrow> int \<Rightarrow> int" where
  "estimateTxSize inputCount outputCount = inputCount * 148 + outputCount * 34 + 10"

text \<open>
  \<open>[...utxos].sort((a, b) => b.value - a.value)\<close>: a stable sort, descending by value.
  (The difference of two doubles is zero only when they are equal and has the sign of
  the exact difference, so the comparator orders the values as the integers they are.)
\<close>

definition sortDesc :: "utxo list \<Rightarrow> utxo list" where
  "sortDesc utxos = sort_key (\<lambda>u. - val u) utxos"

text \<open>
  The \<open>for (const u of sorted)\<close> loop of \<open>selectUTXOs\<close>: push, add (\<open>total += u.value\<close>, a
  sum of doubles), and leave the loop as soon as the running total reaches the target.
\<close>

fun selectLoop :: "utxo list \<Rightarrow> int \<Rightarrow> utxo list \<Rightarrow> int \<Rightarrow> utxo list \<times> int" where
  "selectLoop [] targetSat selected totalSat = (selected, totalSat)"
| "selectLoop (u # us) targetSat selected totalSat =
     (let selected' = selected @ [u];
          total' = jsAdd totalSat (val u)
      in if total' \<ge> targetSat then (selected', total')
         else selectLoop us targetSat selected' total')"

definition selectUTXOs :: "utxo list \<Rightarrow> int \<Rightarrow> error + (utxo list \<times> int)" where
  "selectUTXOs utxos targetSat =
     (case selectLoop (sortDesc utxos) targetSat [] 0 of
        (selected, totalSat) \<Rightarrow>
          if totalSat < targetSat then Inl (InsufficientFunds totalSat targetSat)
          else Inr (selected, totalSat))"

definition sumValues :: "utxo list \<Rightarrow> int" where
  "sumValues us = sum_list (map val us)"

text \<open>
  The same selection with the running total in exact integer arithmetic. It returns what
  \<open>selectUTXOs\<close> returns whenever the values are non-negative and sum to at most \<open>2^53\<close>
  (lemma \<open>selectUTXOs_exact\<close> below); the fee fitting is stated over it.
\<close>

fun selectLoopExact :: "utxo list \<Rightarrow> int \<Rightarrow> utxo list \<Rightarrow> int \<Rightarrow> utxo list \<times> int" where
  "selectLoopExact [] targetSat selected totalSat = (selected, totalSat)"
| "selectLoopExact (u # us) targetSat selected totalSat =
     (let selected' = selected @ [u];
          total' = totalSat + val u
      in if total' \<ge> targetSat then (selected', total')
         else selectLoopExact us targetSat selected' total')"

definition selectUTXOsExact :: "utxo list \<Rightarrow> int \<Rightarrow> error + (utxo list \<times> int)" where
  "selectUTXOsExact utxos targetSat =
     (case selectLoopExact (sortDesc utxos) targetSat [] 0 of
        (selected, totalSat) \<Rightarrow>
          if totalSat < targetSat then Inl (InsufficientFunds totalSat targetSat)
          else Inr (selected, totalSat))"

text \<open>UTXOs whose values sum to 3 more than \<open>2^53\<close>.\<close>

definition utxoMaxSafe :: utxo where
  "utxoMaxSafe = \<lparr>tx_hash = [0x63], tx_pos = 0, height = 100, val = 9007199254740991\<rparr>"

definition utxoFour :: utxo where
  "utxoFour = \<lparr>tx_hash = [0x64], tx_pos = 0, height = 100, val = 4\<rparr>"


section \<open>Address validation (\<open>core/keychain.ts\<close>)\<close>

text \<open>
  The address, script, key and transaction-builder functions of the \<open>utxo-lib\<close> dependency
  are not part of the sources. They are parameters of the model, collected in the record
  \<open>lib\<close>; \<open>None\<close> stands for a call that throws. A transaction builder is modelled by
  the calls the code makes on it, in order.
\<close>

record txin =
  in_hash :: jsstring
  in_index :: int
  in_sequence :: int
  in_prevOutScript :: script

record txout =
  out_script :: script
  out_value :: int

record tx =
  tx_ins :: "(jsstring \<times> int) list"
  tx_outs :: "txout list"

record txbuilder =
  b_version :: int
  b_versionGroupId :: int
  b_expiryHeight :: int
  b_inputs :: "txin list"
  b_outputs :: "(jsstring \<times> int) list"
  b_signs :: "(nat \<times> jsstring \<times> nat \<times> int) list"

record lib =
  lib_fromBase58Check :: "jsstring \<Rightarrow> (nat \<times> 8 word list) option"
  lib_pubKeyHash :: nat
  lib_scriptHash :: nat
  lib_addressOfWIF :: "jsstring \<Rightarrow> jsstring option"
  lib_scriptPubKeyOfWIF :: "jsstring \<Rightarrow> script"
  lib_build :: "txbuilder \<Rightarrow> tx option"
  lib_fromOutputScript :: "script \<Rightarrow> jsstring option"

text \<open>The test \<open>/^[\x20-\x7E]+$/\<close>: one or more code units, all printable ASCII.\<close>

definition printableAscii :: "jsstring \<Rightarrow> bool" where
  "printableAscii address = (address \<noteq> [] \<and> list_all (\<lambda>c. 0x20 \<le> c \<and> c \<le> 0x7E) address)"

datatype thrown = Thrown

text \<open>
  The work done on the argument, each with the number of code units it is applied to: the
  regular-expression test and the base58check decoding both read the whole string.
\<close>

datatype work = RegexTest nat | Base58CheckDecode nat

text \<open>
  The body of the \<open>try\<close> block of \<open>isValidAddress\<close>, with the work it has done when it
  leaves the block; \<open>Inl\<close> is an exception thrown in it. The first statement of the block
  is the regular-expression test: no test of the length comes before it.
\<close>

definition isValidAddressBody :: "lib \<Rightarrow> jsstring \<Rightarrow> work list \<times> (thrown + bool)" where
  "isValidAddressBody lib address =
     (if \<not> printableAscii address then ([RegexTest (length address)], Inr False)
      else case lib_fromBase58Check lib address of
             None \<Rightarrow>
               ([RegexTest (length address), Base58CheckDecode (length address)], Inl Thrown)
           | Some (version, hash) \<Rightarrow>
               ([RegexTest (length address), Base58CheckDecode (length address)],
                Inr (version = lib_pubKeyHash lib \<or> version = lib_scriptHash lib)))"

text \<open>\<open>isValidAddress\<close>: the \<open>catch\<close> turns every exception into \<open>false\<close>.\<close>

definition isValidAddress :: "lib \<Rightarrow> jsstring \<Rightarrow> bool" where
  "isValidAddress lib address =
     (case snd (isValidAddressBody lib address) of Inl _ \<Rightarrow> False | Inr b \<Rightarrow> b)"

definition isValidAddressWork :: "lib \<Rightarrow> jsstring \<Rightarrow> work list" where
  "isValidAddressWork lib address = fst (isValidAddressBody lib address)"

section \<open>Fee fitting (\<open>core/transaction.ts\<close>)\<close>

text \<open>
  \<open>Math.round(size * feeRate / 1000)\<close>: the product is rounded to a double, and so is its
  quotient by 1000, before \<open>Math.round\<close> rounds to the nearest integer, a half upwards.
  While the product is non-negative and at most \<open>2^53\<close> this is
  \<open>(size * feeRate + 500) div 1000\<close> (lemma \<open>roundPerKB_exact\<close> below).
\<close>

definition roundPerKB :: "int \<Rightarrow> int \<Rightarrow> int" where
  "roundPerKB txSize feeRate = roundOfQuotient (toDouble (txSize * feeRate)) 1000"

definition newFeeFor :: "nat \<Rightarrow> int \<Rightarrow> int" where
  "newFeeFor inputCount feeRate =
     max (roundPerKB (estimateTxSize (int inputCount) 2) feeRate) MIN_FEE"

text \<open>
  The loop \<open>for (let i = 0; i < 5; i++)\<close> that buildTransaction and simulateTransaction
  share word for word; the first argument counts the iterations left. A failing selection
  is returned with the value of \<open>fee\<close> at that moment, which simulateTransaction reports.
\<close>

fun feeLoop :: "nat \<Rightarrow> utxo list \<Rightarrow> int \<Rightarrow> int \<Rightarrow> int \<Rightarrow> utxo list \<Rightarrow> int
    \<Rightarrow> (error \<times> int) + (int \<times> utxo list \<times> int)" where
  "feeLoop 0 utxos feeRate amountSat fee selected totalSat = Inr (fee, selected, totalSat)"
| "feeLoop (Suc n) utxos feeRate amountSat fee selected totalSat =
     (let newFee = newFeeFor (length selected) feeRate
      in if newFee \<le> fee then Inr (fee, selected, totalSat)
         else case selectUTXOsExact utxos (amountSat + newFee) of
                Inl e \<Rightarrow> Inl (e, newFee)
              | Inr (selected', total') \<Rightarrow>
                  feeLoop n utxos feeRate amountSat newFee selected' total')"

definition fitFee :: "utxo list \<Rightarrow> int \<Rightarrow> int \<Rightarrow> (error \<times> int) + (int \<times> utxo list \<times> int)" where
  "fitFee utxos feeRate amountSat =
     (case selectUTXOsExact utxos (amountSat + MIN_FEE) of
        Inl e \<Rightarrow> Inl (e, MIN_FEE)
      | Inr (selected, totalSat) \<Rightarrow>
          feeLoop 5 utxos feeRate amountSat MIN_FEE selected totalSat)"

text \<open>
  The same loop, recording every value the variable \<open>fee\<close> takes (oldest first) and the
  number of calls of the selection made inside the loop.
\<close>

fun feeLoopTrace :: "nat \<Rightarrow> utxo list \<Rightarrow> int \<Rightarrow> int \<Rightarrow> int \<Rightarrow> utxo list \<Rightarrow> int
    \<Rightarrow> int list \<times> nat \<times> ((error \<times> int) + (int \<times> utxo list \<times> int))" where
  "feeLoopTrace 0 utxos feeRate amountSat fee selected totalSat =
     ([], 0, Inr (fee, selected, totalSat))"
| "feeLoopTrace (Suc n) utxos feeRate amountSat fee selected totalSat =
     (let newFee = newFeeFor (length selected) feeRate
      in if newFee \<le> fee then ([], 0, Inr (fee, selected, totalSat))
         else case selectUTXOsExact utxos (amountSat + newFee) of
                Inl e \<Rightarrow> ([newFee], 1, Inl (e, newFee))
              | Inr (selected', total') \<Rightarrow>
                  (case feeLoopTrace n utxos feeRate amountSat newFee selected' total' of
                     (fees, calls, r) \<Rightarrow> (newFee # fees, Suc calls, r)))"

definition fitFeeTrace :: "utxo list \<Rightarrow> int \<Rightarrow> int
    \<Rightarrow> int list \<times> nat \<times> ((error \<times> int) + (int \<times> utxo list \<times> int))" where
  "fitFeeTrace utxos feeRate amountSat =
     (case selectUTXOsExact utxos (amountSat + MIN_FEE) of
        Inl e \<Rightarrow> ([MIN_FEE], 0, Inl (e, MIN_FEE))
      | Inr (selected, totalSat) \<Rightarrow>
          (case feeLoopTrace 5 utxos feeRate amountSat MIN_FEE selected totalSat of
             (fees, calls, r) \<Rightarrow> (MIN_FEE # fees, calls, r)))"

section \<open>Building and simulating a plain transfer (\<open>core/transaction.ts\<close>)\<close>

definition isSafeInteger :: "int \<Rightarrow> bool" where
  "isSafeInteger n = (- (2 ^ 53 - 1) \<le> n \<and> n \<le> 2 ^ 53 - 1)"

definition DEFAULT_SEQUENCE :: int where
  "DEFAULT_SEQUENCE = 0xffffffff"

definition SIGHASH_ALL :: nat where
  "SIGHASH_ALL = 1"

definition newBuilder :: txbuilder where
  "newBuilder = \<lparr>b_version = 4, b_versionGroupId = 0x892f2085, b_expiryHeight = 0,
     b_inputs = [], b_outputs = [], b_signs = []\<rparr>"

definition addInput :: "txbuilder \<Rightarrow> jsstring \<Rightarrow> int \<Rightarrow> int \<Rightarrow> script \<Rightarrow> txbuilder" where
  "addInput txb h i s spk =
     txb\<lparr>b_inputs := b_inputs txb @
       [\<lparr>in_hash = h, in_index = i, in_sequence = s, in_prevOutScript = spk\<rparr>]\<rparr>"

definition addOutput :: "txbuilder \<Rightarrow> jsstring \<Rightarrow> int \<Rightarrow> txbuilder" where
  "addOutput txb address v = txb\<lparr>b_outputs := b_outputs txb @ [(address, v)]\<rparr>"

definition signInput :: "txbuilder \<Rightarrow> nat \<Rightarrow> jsstring \<Rightarrow> nat \<Rightarrow> int \<Rightarrow> txbuilder" where
  "signInput txb i wif hashType v = txb\<lparr>b_signs := b_signs txb @ [(i, wif, hashType, v)]\<rparr>"

text \<open>
  buildTransaction up to and including the signing loop (lines 169 to 233): the
  validation, the fee fitting, the change rule, and the calls made on the builder. The
  result is the builder together with the final value of the variable \<open>fee\<close>.
  The UTXOs and the fee rate are the values the two adapter calls returned.
\<close>

definition buildRequest :: "lib \<Rightarrow> jsstring \<Rightarrow> utxo list \<Rightarrow> int \<Rightarrow> jsstring \<Rightarrow> int
    \<Rightarrow> error + (txbuilder \<times> int)" where
  "buildRequest lib wif utxos feeRate toAddress amountSat =
     (if \<not> isSafeInteger amountSat \<or> amountSat \<le> 0 then Inl InvalidAmount
      else if \<not> isValidAddress lib toAddress then Inl InvalidAddress
      else if length utxos = 0 then Inl NoUtxosAvailable
      else case fitFee utxos feeRate amountSat of
        Inl (e, _) \<Rightarrow> Inl e
      | Inr (fee, selected, totalSat) \<Rightarrow>
          let change = totalSat - amountSat - fee
          in if change < 0 then Inl (InsufficientFundsAfterFee totalSat (amountSat + fee))
             else
               (case lib_addressOfWIF lib wif of
                  None \<Rightarrow> Inl LibraryError
                | Some senderAddress \<Rightarrow>
                    let spk = lib_scriptPubKeyOfWIF lib wif;
                        txb1 = fold (\<lambda>u txb. addInput txb (tx_hash u) (tx_pos u)
                                               DEFAULT_SEQUENCE spk)
                                 selected newBuilder;
                        txb2 = addOutput txb1 toAddress amountSat;
                        (txb3, fee') =
                          (if change > DUST_THRESHOLD
                           then (addOutput txb2 senderAddress change, fee)
                           else (txb2, fee + change));
                        txb4 = fold (\<lambda>(i, u) txb. signInput txb i wif SIGHASH_ALL (val u))
                                 (zip [0 ..< length selected] selected) txb3
                    in Inr (txb4, fee')))"

text \<open>
  buildTransaction: \<open>txb.build()\<close> and the verification after the build (lines 235 to
  253). Reading \<open>tx.outs[0].script\<close> of a transaction without outputs throws, as does a
  script that \<open>fromOutputScript\<close> cannot decode. The model returns the transaction
  rather than its hexadecimal serialisation.
\<close>

definition buildTransaction :: "lib \<Rightarrow> jsstring \<Rightarrow> utxo list \<Rightarrow> int \<Rightarrow> jsstring \<Rightarrow> int
    \<Rightarrow> error + tx" where
  "buildTransaction lib wif utxos feeRate toAddress amountSat =
     (case buildRequest lib wif utxos feeRate toAddress amountSat of
        Inl e \<Rightarrow> Inl e
      | Inr (txb, fee) \<Rightarrow>
          (case lib_build lib txb of
             None \<Rightarrow> Inl LibraryError
           | Some t \<Rightarrow>
               (case tx_outs t of
                  [] \<Rightarrow> Inl LibraryError
                | recipientOut # _ \<Rightarrow>
                    (case lib_fromOutputScript lib (out_script recipientOut) of
                       None \<Rightarrow> Inl LibraryError
                     | Some decodedAddr \<Rightarrow>
                         if decodedAddr \<noteq> toAddress
                           then Inl (TxVerificationAddress decodedAddr toAddress)
                         else if out_value recipientOut \<noteq> amountSat
                           then Inl (TxVerificationValue (out_value recipientOut) amountSat)
                         else Inr t))))"






text \<open>A library and inputs to run the definitions on.\<close>

definition addrR :: jsstring where
  "addrR = [0x52, 0x41]"

definition addrS :: jsstring where
  "addrS = [0x52, 0x42]"

definition wifS :: jsstring where
  "wifS = [0x55, 0x78]"

definition scriptOf :: "jsstring \<Rightarrow> script" where
  "scriptOf a = (if a = addrR then [0x76, 0x01] else if a = addrS then [0x76, 0x02] else [])"

definition exampleLib :: lib where
  "exampleLib = \<lparr>
     lib_fromBase58Check = (\<lambda>a. if a = addrR \<or> a = addrS then Some (60, []) else None),
     lib_pubKeyHash = 60,
     lib_scriptHash = 85,
     lib_addressOfWIF = (\<lambda>w. if w = wifS then Some addrS else None),
     lib_scriptPubKeyOfWIF = (\<lambda>w. scriptOf addrS),
     lib_build = (\<lambda>txb.
        if list_all (\<lambda>p. fst p = addrR \<or> fst p = addrS) (b_outputs txb)
        then Some \<lparr>tx_ins = map (\<lambda>i. (in_hash i, in_index i)) (b_inputs txb),
                   tx_outs = map (\<lambda>p. \<lparr>out_script = scriptOf (fst p), out_value = snd p\<rparr>)
                               (b_outputs txb)\<rparr>
        else None),
     lib_fromOutputScript = (\<lambda>s. if s = [0x76, 0x01] then Some addrR
                                else if s = [0x76, 0x02] then Some addrS else None)\<rparr>"

definition utxoA :: utxo where
  "utxoA = \<lparr>tx_hash = [0x61], tx_pos = 0, height = 100, val = 50000000\<rparr>"

definition utxoB :: utxo where
  "utxoB = \<lparr>tx_hash = [0x62], tx_pos = 1, height = 0, val = 3000000\<rparr>"

text \<open>The two verification failures of the check after the build.\<close>

definition isVerificationFailure :: "error \<Rightarrow> bool" where
  "isVerificationFailure e =
     (case e of TxVerificationAddress _ _ \<Rightarrow> True | TxVerificationValue _ _ \<Rightarrow> True | _ \<Rightarrow> False)"

text \<open>A library whose builder pays every output to the sender's script.\<close>

definition misdirectingLib :: lib where
  "misdirectingLib = exampleLib\<lparr>lib_build := (\<lambda>txb.
      Some \<lparr>tx_ins = map (\<lambda>i. (in_hash i, in_index i)) (b_inputs txb),
            tx_outs = map (\<lambda>p. \<lparr>out_script = scriptOf addrS, out_value = snd p\<rparr>)
                        (b_outputs txb)\<rparr>)\<rparr>"

definition txTwoOutputs :: tx where
  "txTwoOutputs = \<lparr>tx_ins = [([0x61], 0)],
     tx_outs = [\<lparr>out_script = [0x76, 0x01], out_value = 10000000\<rparr>,
                \<lparr>out_script = [0x76, 0x02], out_value = 39990000\<rparr>]\<rparr>"



section \<open>Vault encryption (\<open>core/vault\<close>, the source file \<open>unnamed/part_000\<close>)\<close>

definition PBKDF2_ITERATIONS :: int where
  "PBKDF2_ITERATIONS = 900000"

definition SALT_LENGTH :: nat where
  "SALT_LENGTH = 16"

definition IV_LENGTH :: nat where
  "IV_LENGTH = 12"

text \<open>
  The vault functions frame calls of the platform: WebCrypto (\<open>importKey\<close> and
  \<open>deriveKey\<close> with PBKDF2 and SHA-256, AES-GCM \<open>encrypt\<close> and \<open>decrypt\<close>), \<open>TextEncoder\<close>
  and \<open>TextDecoder\<close>, \<open>btoa\<close> and \<open>atob\<close>. These are parameters of the model, collected
  in the record \<open>platform\<close> over the type \<open>'k\<close> of keys. \<open>pf_pbkdf2\<close> takes the bytes of
  the password, the salt and the iteration count; \<open>pf_aesGcmDecrypt\<close> is \<open>None\<close> when
  \<open>decrypt\<close> rejects (an \<open>OperationError\<close>), \<open>pf_atob\<close> when \<open>atob\<close> throws;
  \<open>pf_maxArguments\<close> is the largest number of arguments the engine accepts in a call
  (the spread \<open>String.fromCharCode(...result)\<close> throws a \<open>RangeError\<close> beyond it).
\<close>

record 'k platform =
  pf_pbkdf2 :: "8 word list \<Rightarrow> 8 word list \<Rightarrow> int \<Rightarrow> 'k"
  pf_aesGcmEncrypt :: "'k \<Rightarrow> 8 word list \<Rightarrow> 8 word list \<Rightarrow> 8 word list"
  pf_aesGcmDecrypt :: "'k \<Rightarrow> 8 word list \<Rightarrow> 8 word list \<Rightarrow> 8 word list option"
  pf_textEncode :: "jsstring \<Rightarrow> 8 word list"
  pf_textDecode :: "8 word list \<Rightarrow> jsstring"
  pf_btoa :: "jsstring \<Rightarrow> jsstring"
  pf_atob :: "jsstring \<Rightarrow> jsstring option"
  pf_maxArguments :: nat

datatype vaultError = RangeError | InvalidCharacterError | OperationError

text \<open>\<open>deriveKey\<close>: the key is derived from the encoded password.\<close>

definition deriveKey :: "'k platform \<Rightarrow> jsstring \<Rightarrow> 8 word list \<Rightarrow> int \<Rightarrow> 'k" where
  "deriveKey pf password salt iterations =
     pf_pbkdf2 pf (pf_textEncode pf password) salt iterations"

text \<open>
  \<open>String.fromCharCode(...bytes)\<close>: the string whose code units are the bytes; and
  \<open>array.slice(start, stop)\<close>.
\<close>

definition fromCharCode :: "'k platform \<Rightarrow> 8 word list \<Rightarrow> jsstring option" where
  "fromCharCode pf bytes =
     (if pf_maxArguments pf < length bytes then None else Some (map ucast bytes))"

definition slice_array :: "'a list \<Rightarrow> nat \<Rightarrow> nat \<Rightarrow> 'a list" where
  "slice_array xs start stop = drop start (take stop xs)"

text \<open>
  \<open>encryptVault\<close>. The salt and the IV are the 16 and 12 bytes that
  \<open>crypto.getRandomValues\<close> returned; the result is the base64 encoding of salt, IV and
  ciphertext, in this order.
\<close>

definition encryptVault :: "'k platform \<Rightarrow> 8 word list \<Rightarrow> 8 word list \<Rightarrow> jsstring \<Rightarrow> jsstring
    \<Rightarrow> vaultError + jsstring" where
  "encryptVault pf salt iv plaintext password =
     (let key = deriveKey pf password salt PBKDF2_ITERATIONS;
          ciphertext = pf_aesGcmEncrypt pf key iv (pf_textEncode pf plaintext);
          result = salt @ iv @ ciphertext
      in case fromCharCode pf result of
           None \<Rightarrow> Inl RangeError
         | Some binary \<Rightarrow> Inr (pf_btoa pf binary))"

text \<open>
  \<open>decryptVault\<close>; its callers leave the iteration count to its default,
  \<open>PBKDF2_ITERATIONS\<close>. \<open>Uint8Array.from(atob(encoded), c => c.charCodeAt(0))\<close> keeps the
  low byte of each code unit. An exception of \<open>atob\<close> or of \<open>decrypt\<close> leaves the function
  as it is thrown: the function has no \<open>catch\<close> and no error of its own.
\<close>

definition decryptVault :: "'k platform \<Rightarrow> jsstring \<Rightarrow> jsstring \<Rightarrow> int \<Rightarrow> vaultError + jsstring" where
  "decryptVault pf encoded password iterations =
     (case pf_atob pf encoded of
        None \<Rightarrow> Inl InvalidCharacterError
      | Some binary \<Rightarrow>
          let data = map ucast binary;
              salt = slice_array data 0 SALT_LENGTH;
              iv = slice_array data SALT_LENGTH (SALT_LENGTH + IV_LENGTH);
              ciphertext = drop (SALT_LENGTH + IV_LENGTH) data;
              key = deriveKey pf password salt iterations
          in case pf_aesGcmDecrypt pf key iv ciphertext of
               None \<Rightarrow> Inl OperationError
             | Some plaintext \<Rightarrow> Inr (pf_textDecode pf plaintext))"

text \<open>
  What is assumed of the platform: \<open>atob\<close> inverts \<open>btoa\<close> on strings of bytes; AES-GCM
  decryption inverts encryption under the same key and IV; and, as an idealisation of its
  authentication tag, AES-GCM decryption rejects a ciphertext under any other key.
\<close>

definition base64Inverts :: "'k platform \<Rightarrow> bool" where
  "base64Inverts pf =
     (\<forall>bytes :: 8 word list. pf_atob pf (pf_btoa pf (map ucast bytes)) = Some (map ucast bytes))"

definition aesGcmInverts :: "'k platform \<Rightarrow> bool" where
  "aesGcmInverts pf =
     (\<forall>k iv m. pf_aesGcmDecrypt pf k iv (pf_aesGcmEncrypt pf k iv m) = Some m)"

definition aesGcmRejects :: "'k platform \<Rightarrow> bool" where
  "aesGcmRejects pf =
     (\<forall>k k' iv m. k' \<noteq> k \<longrightarrow> pf_aesGcmDecrypt pf k' iv (pf_aesGcmEncrypt pf k iv m) = None)"

text \<open>
  \<open>TextEncoder.encode\<close> as the Encoding Standard defines it: the string is read as
  UTF-16, a high surrogate followed by a low one being one code point and any other
  surrogate being replaced by U+FFFD, and each code point is written in UTF-8.
\<close>

definition isHighSurrogate :: "16 word \<Rightarrow> bool" where
  "isHighSurrogate c = (0xD800 \<le> c \<and> c \<le> 0xDBFF)"

definition isLowSurrogate :: "16 word \<Rightarrow> bool" where
  "isLowSurrogate c = (0xDC00 \<le> c \<and> c \<le> 0xDFFF)"

definition utf8Bytes :: "int \<Rightarrow> 8 word list" where
  "utf8Bytes cp =
     (if cp < 0x80 then [word_of_int cp]
      else if cp < 0x800 then [word_of_int (0xC0 + cp div 64), word_of_int (0x80 + cp mod 64)]
      else if cp < 0x10000
        then [word_of_int (0xE0 + cp div 4096), word_of_int (0x80 + cp div 64 mod 64),
              word_of_int (0x80 + cp mod 64)]
      else [word_of_int (0xF0 + cp div 262144), word_of_int (0x80 + cp div 4096 mod 64),
            word_of_int (0x80 + cp div 64 mod 64), word_of_int (0x80 + cp mod 64)])"

fun utf8Encode :: "jsstring \<Rightarrow> 8 word list" where
  "utf8Encode [] = []"
| "utf8Encode [c] =
     (if isHighSurrogate c \<or> isLowSurrogate c then [0xEF, 0xBF, 0xBD] else utf8Bytes (uint c))"
| "utf8Encode (c # d # cs) =
     (if isHighSurrogate c \<and> isLowSurrogate d
      then utf8Bytes (0x10000 + (uint c - 0xD800) * 1024 + (uint d - 0xDC00)) @ utf8Encode cs
      else if isHighSurrogate c \<or> isLowSurrogate c
        then [0xEF, 0xBF, 0xBD] @ utf8Encode (d # cs)
      else utf8Bytes (uint c) @ utf8Encode (d # cs))"

text \<open>
  A platform with the encoder above, to run the vault functions on. Its key is the
  checksum of the encoded password and the salt; its cipher prepends the key to the
  plaintext and its decryption checks it; its decoder reads ASCII; its base64 is the
  identity.
\<close>

definition toyPlatform :: "8 word platform" where
  "toyPlatform = \<lparr>
     pf_pbkdf2 = (\<lambda>passwordBytes salt iterations. sum_list passwordBytes + sum_list salt),
     pf_aesGcmEncrypt = (\<lambda>k iv m. k # m),
     pf_aesGcmDecrypt = (\<lambda>k iv c. case c of [] \<Rightarrow> None
                                   | t # m \<Rightarrow> if t = k then Some m else None),
     pf_textEncode = utf8Encode,
     pf_textDecode = map ucast,
     pf_btoa = (\<lambda>binary. binary),
     pf_atob = (\<lambda>encoded. Some encoded),
     pf_maxArguments = 65536\<rparr>"

definition goodPassword :: jsstring where
  "goodPassword = [0x70, 0x77]"

definition badPassword :: jsstring where
  "badPassword = [0x78]"

definition exampleSalt :: "8 word list" where
  "exampleSalt = [1, 2, 3, 4, 5, 6, 7, 8, 9, 10, 11, 12, 13, 14, 15, 16]"

definition exampleIv :: "8 word list" where
  "exampleIv = [21, 22, 23, 24, 25, 26, 27, 28, 29, 30, 31, 32]"

definition examplePlaintext :: jsstring where
  "examplePlaintext = [0x73, 0x65, 0x65, 0x64]"

definition exampleBlob :: "8 word \<Rightarrow> jsstring" where
  "exampleBlob key = [1, 2, 3, 4, 5, 6, 7, 8, 9, 10, 11, 12, 13, 14, 15, 16,
     21, 22, 23, 24, 25, 26, 27, 28, 29, 30, 31, 32] @ [ucast key, 0x73, 0x65, 0x65, 0x64]"

text \<open>
  Two passwords of eight code units that differ in their last one, a lone high
  surrogate in the first and a lone low surrogate in the second.
\<close>

definition surrogatePasswordA :: jsstring where
  "surrogatePasswordA = [0x70, 0x61, 0x73, 0x73, 0x77, 0x6F, 0x72, 0xD800]"

definition surrogatePasswordB :: jsstring where
  "surrogatePasswordB = [0x70, 0x61, 0x73, 0x73, 0x77, 0x6F, 0x72, 0xDC00]"

section \<open>Unlock rate limiting (\<open>background/index.ts\<close>)\<close>

definition MAX_ATTEMPTS_BEFORE_LOCKOUT :: nat where
  "MAX_ATTEMPTS_BEFORE_LOCKOUT = 5"

definition BASE_LOCKOUT_MS :: int where
  "BASE_LOCKOUT_MS = 5000"

definition MAX_LOCKOUT_MS :: int where
  "MAX_LOCKOUT_MS = 60 * 60000"

text \<open>The value stored under \<open>_unlockAttempts\<close> in \<open>chrome.storage.local\<close>.\<close>

record attempts =
  att_count :: nat
  att_lastFailedAt :: int

text \<open>
  The wallet state the unlock handlers read and write: the persistent failure record, the
  stored vault (its encrypted blob) and the session (here the addresses of its accounts,
  the account of index \<open>i\<close> at position \<open>i\<close>, and the active index).
\<close>

record wallet =
  w_unlockAttempts :: "attempts option"
  w_vault :: "jsstring option"
  w_session :: "(jsstring list \<times> nat) option"

text \<open>
  Decryption, parsing and key derivation are library and platform calls, parameters of
  the handlers. \<open>v_decryptVault\<close> is \<open>await decryptVault(vault.encryptedVault, password)\<close>,
  \<open>v_parse\<close> is \<open>JSON.parse\<close>, \<open>v_unlock\<close> is the part of the \<open>try\<close> block of
  UNLOCK_WALLET from \<open>data.seed\<close> to \<open>resetAutoLock\<close> (it derives the accounts and stores
  the session, and gives the addresses of the accounts and the active index),
  \<open>v_mnemonic\<close> is \<open>entropyToMnemonic\<close> on the entropy of the payload; \<open>None\<close> stands for
  an exception.
\<close>

record 'p vaultOps =
  v_decryptVault :: "jsstring \<Rightarrow> jsstring \<Rightarrow> jsstring option"
  v_parse :: "jsstring \<Rightarrow> 'p option"
  v_unlock :: "'p \<Rightarrow> (jsstring list \<times> nat) option"
  v_mnemonic :: "'p \<Rightarrow> jsstring option"

datatype failure =
    TooManyAttempts int
  | NoWalletFound
  | IncorrectPassword
  | UnauthorizedSender
  | NoPendingLogin
  | NoPendingSend
  | SignatureNotVerified
  | WalletLocked
  | ApprovalFailed

datatype response = Ok jsstring | Fail failure

definition lockoutMs :: "nat \<Rightarrow> int" where
  "lockoutMs n = min (BASE_LOCKOUT_MS * 2 ^ (n - MAX_ATTEMPTS_BEFORE_LOCKOUT)) MAX_LOCKOUT_MS"

text \<open>
  checkUnlockRateLimit at time \<open>now\<close>: \<open>None\<close> when the attempt may proceed, otherwise the
  number of seconds of the lockout message, \<open>Math.ceil((lockoutMs - elapsed) / 1000)\<close>.
\<close>

definition checkUnlockRateLimit :: "wallet \<Rightarrow> int \<Rightarrow> int option" where
  "checkUnlockRateLimit w now =
     (case w_unlockAttempts w of
        None \<Rightarrow> None
      | Some a \<Rightarrow>
          if att_count a < MAX_ATTEMPTS_BEFORE_LOCKOUT then None
          else let elapsed = now - att_lastFailedAt a
               in if elapsed < lockoutMs (att_count a)
                  then Some (- ((- (lockoutMs (att_count a) - elapsed)) div 1000))
                  else None)"

definition recordFailedUnlock :: "wallet \<Rightarrow> int \<Rightarrow> wallet" where
  "recordFailedUnlock w now =
     w\<lparr>w_unlockAttempts :=
        Some \<lparr>att_count = (case w_unlockAttempts w of None \<Rightarrow> 0 | Some a \<Rightarrow> att_count a) + 1,
              att_lastFailedAt = now\<rparr>\<rparr>"

definition resetUnlockAttempts :: "wallet \<Rightarrow> wallet" where
  "resetUnlockAttempts w = w\<lparr>w_unlockAttempts := None\<rparr>"

text \<open>The count the next failure starts from: \<open>attempts?.count ?? 0\<close>.\<close>

definition failureCount :: "wallet \<Rightarrow> nat" where
  "failureCount w = (case w_unlockAttempts w of None \<Rightarrow> 0 | Some a \<Rightarrow> att_count a)"

text \<open>
  \<open>accounts.find(a => a.index === activeIndex) ?? accounts[0]\<close>, and the address of the
  account found: reading it throws when there is no account.
\<close>

definition activeAccount :: "jsstring list \<Rightarrow> nat \<Rightarrow> jsstring option" where
  "activeAccount accounts activeIndex =
     (if activeIndex < length accounts then Some (accounts ! activeIndex)
      else case accounts of [] \<Rightarrow> None | a # _ \<Rightarrow> Some a)"

text \<open>
  The UNLOCK_WALLET handler. \<open>now\<close> is the clock when the rate limit is checked, \<open>later\<close>
  the clock when a failure is recorded. Every exception in the \<open>try\<close> block is caught by
  the one \<open>catch\<close>, which records a failure; the counter is reset after the session is
  stored.
\<close>

definition UNLOCK_WALLET :: "'p vaultOps \<Rightarrow> wallet \<Rightarrow> int \<Rightarrow> int \<Rightarrow> jsstring \<Rightarrow> wallet \<times> response" where
  "UNLOCK_WALLET ops w now later password =
     (case checkUnlockRateLimit w now of
        Some remainingSec \<Rightarrow> (w, Fail (TooManyAttempts remainingSec))
      | None \<Rightarrow>
          (case w_vault w of
             None \<Rightarrow> (w, Fail NoWalletFound)
           | Some blob \<Rightarrow>
               (case v_decryptVault ops blob password of
                  None \<Rightarrow> (recordFailedUnlock w later, Fail IncorrectPassword)
                | Some decrypted \<Rightarrow>
                    (case v_parse ops decrypted of
                       None \<Rightarrow> (recordFailedUnlock w later, Fail IncorrectPassword)
                     | Some payload \<Rightarrow>
                         (case v_unlock ops payload of
                            None \<Rightarrow> (recordFailedUnlock w later, Fail IncorrectPassword)
                          | Some session \<Rightarrow>
                              (let w1 = resetUnlockAttempts (w\<lparr>w_session := Some session\<rparr>)
                               in case activeAccount (fst session) (snd session) of
                                    None \<Rightarrow> (recordFailedUnlock w1 later, Fail IncorrectPassword)
                                  | Some address \<Rightarrow> (w1, Ok address)))))))"

text \<open>
  The GET_MNEMONIC handler: the counter is reset as soon as the vault is decrypted and
  parsed, before the mnemonic is rebuilt.
\<close>

definition GET_MNEMONIC :: "'p vaultOps \<Rightarrow> wallet \<Rightarrow> int \<Rightarrow> int \<Rightarrow> jsstring \<Rightarrow> wallet \<times> response" where
  "GET_MNEMONIC ops w now later password =
     (case checkUnlockRateLimit w now of
        Some remainingSec \<Rightarrow> (w, Fail (TooManyAttempts remainingSec))
      | None \<Rightarrow>
          (case w_vault w of
             None \<Rightarrow> (w, Fail NoWalletFound)
           | Some blob \<Rightarrow>
               (case v_decryptVault ops blob password of
                  None \<Rightarrow> (recordFailedUnlock w later, Fail IncorrectPassword)
                | Some decrypted \<Rightarrow>
                    (case v_parse ops decrypted of
                       None \<Rightarrow> (recordFailedUnlock w later, Fail IncorrectPassword)
                     | Some payload \<Rightarrow>
                         (let w1 = resetUnlockAttempts w
                          in case v_mnemonic ops payload of
                               None \<Rightarrow> (recordFailedUnlock w1 later, Fail IncorrectPassword)
                             | Some mnemonic \<Rightarrow> (w1, Ok mnemonic))))))"

text \<open>
  A sequence of consecutive unlock attempts, each with its two clock readings and its
  password; the responses are returned oldest first. Each attempt has returned before
  the next one is received: calls that overlap (a second message handled while the first
  is suspended between its check of the rate limit and its record of the failure) are
  not runs of this function.
\<close>

fun unlockAttempts :: "'p vaultOps \<Rightarrow> wallet \<Rightarrow> (int \<times> int \<times> jsstring) list
    \<Rightarrow> wallet \<times> response list" where
  "unlockAttempts ops w [] = (w, [])"
| "unlockAttempts ops w ((now, later, password) # rest) =
     (case UNLOCK_WALLET ops w now later password of
        (w', r) \<Rightarrow> (case unlockAttempts ops w' rest of (w'', rs) \<Rightarrow> (w'', r # rs)))"

text \<open>
  What the \<open>try\<close> blocks do with a vault and a password. \<open>unlockThrows\<close>: the block of
  UNLOCK_WALLET throws before it resets the counter. \<open>unlockResult\<close>: it runs to its
  \<open>return\<close>, with the session it stored and the address it returns. \<open>mnemonicResult\<close>:
  the block of GET_MNEMONIC runs to its \<open>return\<close>, with the mnemonic.
\<close>

definition unlockThrows :: "'p vaultOps \<Rightarrow> jsstring \<Rightarrow> jsstring \<Rightarrow> bool" where
  "unlockThrows ops blob password =
     (case v_decryptVault ops blob password of
        None \<Rightarrow> True
      | Some decrypted \<Rightarrow>
          (case v_parse ops decrypted of
             None \<Rightarrow> True
           | Some payload \<Rightarrow> v_unlock ops payload = None))"

definition unlockResult :: "'p vaultOps \<Rightarrow> jsstring \<Rightarrow> jsstring
    \<Rightarrow> ((jsstring list \<times> nat) \<times> jsstring) option" where
  "unlockResult ops blob password =
     (case v_decryptVault ops blob password of
        None \<Rightarrow> None
      | Some decrypted \<Rightarrow>
          (case v_parse ops decrypted of
             None \<Rightarrow> None
           | Some payload \<Rightarrow>
               (case v_unlock ops payload of
                  None \<Rightarrow> None
                | Some session \<Rightarrow>
                    (case activeAccount (fst session) (snd session) of
                       None \<Rightarrow> None
                     | Some address \<Rightarrow> Some (session, address)))))"

definition mnemonicResult :: "'p vaultOps \<Rightarrow> jsstring \<Rightarrow> jsstring \<Rightarrow> jsstring option" where
  "mnemonicResult ops blob password =
     (case v_decryptVault ops blob password of
        None \<Rightarrow> None
      | Some decrypted \<Rightarrow>
          (case v_parse ops decrypted of
             None \<Rightarrow> None
           | Some payload \<Rightarrow> v_mnemonic ops payload))"

text \<open>
  A vault that the password \<open>goodPassword\<close> opens, to run the handlers on; and the same
  vault when the account derivation, or the rebuilding of the mnemonic, throws on its
  payload (a payload without the field the handler reads).
\<close>

definition exampleVaultOps :: "jsstring vaultOps" where
  "exampleVaultOps = \<lparr>
     v_decryptVault = (\<lambda>blob password. if password = goodPassword then Some blob else None),
     v_parse = (\<lambda>decrypted. Some decrypted),
     v_unlock = (\<lambda>payload. Some ([addrS], 0)),
     v_mnemonic = (\<lambda>payload. Some payload)\<rparr>"

definition incompleteVaultOps :: "jsstring vaultOps" where
  "incompleteVaultOps = exampleVaultOps\<lparr>v_unlock := (\<lambda>payload. None),
     v_mnemonic := (\<lambda>payload. None)\<rparr>"

definition lockedWallet :: wallet where
  "lockedWallet = \<lparr>w_unlockAttempts = None, w_vault = Some [0x76], w_session = None\<rparr>"

definition fiveBadAttempts :: "(int \<times> int \<times> jsstring) list" where
  "fiveBadAttempts = [(1000, 1001, badPassword), (2000, 2001, badPassword),
     (3000, 3001, badPassword), (4000, 4001, badPassword), (5000, 5001, badPassword)]"

definition walletAfter :: "nat \<Rightarrow> int \<Rightarrow> wallet" where
  "walletAfter n lastFailedAt =
     lockedWallet\<lparr>w_unlockAttempts := Some \<lparr>att_count = n, att_lastFailedAt = lastFailedAt\<rparr>\<rparr>"

definition lockedOutWallet :: wallet where
  "lockedOutWallet = walletAfter 5 5001"

section \<open>Pending dApp requests and their approval (\<open>background/index.ts\<close>)\<close>

definition PENDING_LOGIN_TTL_MS :: int where
  "PENDING_LOGIN_TTL_MS = 5 * 60000"

record pendingLogin =
  pl_uri :: jsstring
  pl_tabId :: int
  pl_origin :: jsstring
  pl_signatureVerified :: "bool option"
  pl_createdAt :: int

record pendingSend =
  ps_to :: jsstring
  ps_amount :: int
  ps_tabId :: int
  ps_origin :: jsstring
  ps_createdAt :: int

text \<open>The two module-level maps, keyed by the request identifier.\<close>

record registries =
  pendingLogins :: "jsstring \<rightharpoonup> pendingLogin"
  pendingSends :: "jsstring \<rightharpoonup> pendingSend"

definition purgeMap :: "int \<Rightarrow> ('e \<Rightarrow> int) \<Rightarrow> (jsstring \<rightharpoonup> 'e) \<Rightarrow> (jsstring \<rightharpoonup> 'e)" where
  "purgeMap now created m =
     (\<lambda>k. case m k of
             None \<Rightarrow> None
           | Some e \<Rightarrow> if now - created e > PENDING_LOGIN_TTL_MS then None else Some e)"

definition purgeExpiredRequests :: "int \<Rightarrow> registries \<Rightarrow> registries" where
  "purgeExpiredRequests now regs =
     \<lparr>pendingLogins = purgeMap now pl_createdAt (pendingLogins regs),
      pendingSends = purgeMap now ps_createdAt (pendingSends regs)\<rparr>"

text \<open>
  An approval message with its request identifier, and whether its sender is the
  extension's own popup (\<open>isPopupSender\<close>); neither message type is on the allowlist of
  the content scripts.
\<close>

datatype approval = DAPP_APPROVE jsstring | DAPP_APPROVE_SEND jsstring

datatype claimed = ClaimedLogin pendingLogin | ClaimedSend pendingSend

text \<open>
  handleMessage for an approval, from the purge to the first \<open>await\<close> of the case: this
  part runs without a suspension point. It purges, checks the sender, looks the entry up,
  (for a login) refuses an unverified entry, and deletes the entry.
\<close>

definition approveClaim :: "registries \<Rightarrow> int \<Rightarrow> bool \<Rightarrow> approval \<Rightarrow> registries \<times> (failure + claimed)" where
  "approveClaim regs now fromPopup msg =
     (let regs1 = purgeExpiredRequests now regs
      in if \<not> fromPopup then (regs1, Inl UnauthorizedSender)
         else case msg of
           DAPP_APPROVE requestId \<Rightarrow>
             (case pendingLogins regs1 requestId of
                None \<Rightarrow> (regs1, Inl NoPendingLogin)
              | Some pending \<Rightarrow>
                  if pl_signatureVerified pending \<noteq> Some True
                  then (regs1, Inl SignatureNotVerified)
                  else (regs1\<lparr>pendingLogins := (pendingLogins regs1)(requestId := None)\<rparr>,
                        Inr (ClaimedLogin pending)))
         | DAPP_APPROVE_SEND requestId \<Rightarrow>
             (case pendingSends regs1 requestId of
                None \<Rightarrow> (regs1, Inl NoPendingSend)
              | Some pending \<Rightarrow>
                  (regs1\<lparr>pendingSends := (pendingSends regs1)(requestId := None)\<rparr>,
                   Inr (ClaimedSend pending))))"

text \<open>
  A call of handleMessage is suspended at its \<open>await\<close>s. \<open>Received\<close>: before the first
  one (the debug log); \<open>AtEntry\<close>: about to run the part above; \<open>Holding\<close>: it claimed the
  entry and awaits \<open>getSession()\<close>; \<open>Working\<close>: it found a session and is in the \<open>try\<close>
  block (signing and webhook, or building and broadcast), which does not touch the
  registries; \<open>Done\<close>: it returned, with the entry it claimed if any.
\<close>

datatype phase =
    Received
  | AtEntry
  | Holding claimed
  | Working claimed
  | Done "claimed option" response

text \<open>
  One run of a call up to its next suspension point, at clock \<open>now\<close>; \<open>unlocked\<close> tells
  whether \<open>getSession()\<close> finds a session at that moment. Without a session the call
  that holds the entry returns "Wallet is locked". The outcome of the \<open>try\<close> block is the
  parameter \<open>work\<close>.
\<close>

definition stepCall :: "(claimed \<Rightarrow> response) \<Rightarrow> int \<Rightarrow> bool \<Rightarrow> bool \<Rightarrow> approval
    \<Rightarrow> registries \<times> phase \<Rightarrow> registries \<times> phase" where
  "stepCall work now unlocked fromPopup msg rp =
     (case rp of (regs, ph) \<Rightarrow>
        (case ph of
           Received \<Rightarrow> (regs, AtEntry)
         | AtEntry \<Rightarrow>
             (case approveClaim regs now fromPopup msg of
                (regs', Inl f) \<Rightarrow> (regs', Done None (Fail f))
              | (regs', Inr c) \<Rightarrow> (regs', Holding c))
         | Holding c \<Rightarrow>
             if unlocked then (regs, Working c)
             else (regs, Done (Some c) (Fail WalletLocked))
         | Working c \<Rightarrow> (regs, Done (Some c) (work c))
         | Done c r \<Rightarrow> (regs, Done c r)))"

text \<open>
  Two calls interleaved on the single thread: a schedule says, step by step, which call
  runs next (\<open>True\<close> for the first), what the clock shows and whether the wallet is
  unlocked.
\<close>

record calls =
  c_regs :: registries
  c_first :: phase
  c_second :: phase

fun interleave :: "(claimed \<Rightarrow> response) \<Rightarrow> (bool \<times> approval) \<Rightarrow> (bool \<times> approval)
    \<Rightarrow> (bool \<times> int \<times> bool) list \<Rightarrow> calls \<Rightarrow> calls" where
  "interleave work a b [] c = c"
| "interleave work a b ((who, now, unlocked) # sched) c =
     (if who
      then (case stepCall work now unlocked (fst a) (snd a) (c_regs c, c_first c) of
              (regs', ph') \<Rightarrow> interleave work a b sched (c\<lparr>c_regs := regs', c_first := ph'\<rparr>))
      else (case stepCall work now unlocked (fst b) (snd b) (c_regs c, c_second c) of
              (regs', ph') \<Rightarrow> interleave work a b sched (c\<lparr>c_regs := regs', c_second := ph'\<rparr>)))"

definition startCalls :: "registries \<Rightarrow> calls" where
  "startCalls regs = \<lparr>c_regs = regs, c_first = Received, c_second = Received\<rparr>"

text \<open>
  The outcome of a race for one entry: one call claimed it, and answered either "Wallet
  is locked" or what its \<open>try\<close> block returned; the other found none. A call succeeded
  when it returned an \<open>Ok\<close> response.
\<close>

definition oneClaimOneNotFound :: "(claimed \<Rightarrow> response) \<Rightarrow> claimed \<Rightarrow> failure \<Rightarrow> phase \<Rightarrow> phase
    \<Rightarrow> bool" where
  "oneClaimOneNotFound work c notFound p q =
     ((p = Done (Some c) (work c) \<or> p = Done (Some c) (Fail WalletLocked))
        \<and> q = Done None (Fail notFound)
      \<or> (q = Done (Some c) (work c) \<or> q = Done (Some c) (Fail WalletLocked))
        \<and> p = Done None (Fail notFound))"

definition isDone :: "phase \<Rightarrow> bool" where
  "isDone p = (case p of Done _ _ \<Rightarrow> True | _ \<Rightarrow> False)"

definition succeeded :: "phase \<Rightarrow> bool" where
  "succeeded p = (case p of Done _ (Ok _) \<Rightarrow> True | _ \<Rightarrow> False)"

text \<open>Requests and schedules to run the calls on.\<close>

definition requestId1 :: jsstring where
  "requestId1 = [0x69, 0x64]"

definition verifiedLogin :: pendingLogin where
  "verifiedLogin = \<lparr>pl_uri = [0x76], pl_tabId = 7, pl_origin = [0x68],
     pl_signatureVerified = Some True, pl_createdAt = 1000\<rparr>"

definition unverifiedLogin :: pendingLogin where
  "unverifiedLogin = verifiedLogin\<lparr>pl_signatureVerified := Some False\<rparr>"

definition someSend :: pendingSend where
  "someSend = \<lparr>ps_to = addrR, ps_amount = 1, ps_tabId = 7, ps_origin = [0x68],
     ps_createdAt = 1000\<rparr>"

definition registriesWith :: "pendingLogin \<Rightarrow> registries" where
  "registriesWith p = \<lparr>pendingLogins = [requestId1 \<mapsto> p], pendingSends = [requestId1 \<mapsto> someSend]\<rparr>"

definition workOk :: "claimed \<Rightarrow> response" where
  "workOk c = Ok []"

definition scheduleUnlocked :: "(bool \<times> int \<times> bool) list" where
  "scheduleUnlocked = [(True, 2000, True), (False, 2001, True), (False, 2002, True),
     (True, 2003, True), (True, 2004, True), (False, 2005, True), (False, 2006, True)]"

definition scheduleLocked :: "(bool \<times> int \<times> bool) list" where
  "scheduleLocked = [(True, 2000, False), (False, 2001, False), (False, 2002, False),
     (True, 2003, False), (True, 2004, False), (False, 2005, False)]"

text \<open>
  The entry an approval message refers to, whether the handler lets it be approved (a
  login needs its signature verified), its creation time and the failure that reports
  it missing; and the invariants of two interleaved approvals of one live entry, when it
  can be approved and when it cannot.
\<close>

definition entryOf :: "approval \<Rightarrow> registries \<Rightarrow> claimed option" where
  "entryOf msg regs =
     (case msg of
        DAPP_APPROVE requestId \<Rightarrow> map_option ClaimedLogin (pendingLogins regs requestId)
      | DAPP_APPROVE_SEND requestId \<Rightarrow> map_option ClaimedSend (pendingSends regs requestId))"

definition approvable :: "claimed \<Rightarrow> bool" where
  "approvable c =
     (case c of ClaimedLogin p \<Rightarrow> pl_signatureVerified p = Some True | ClaimedSend p \<Rightarrow> True)"

definition createdOf :: "claimed \<Rightarrow> int" where
  "createdOf c = (case c of ClaimedLogin p \<Rightarrow> pl_createdAt p | ClaimedSend p \<Rightarrow> ps_createdAt p)"

definition notFoundOf :: "approval \<Rightarrow> failure" where
  "notFoundOf msg = (case msg of DAPP_APPROVE _ \<Rightarrow> NoPendingLogin | DAPP_APPROVE_SEND _ \<Rightarrow> NoPendingSend)"

definition isHolding :: "phase \<Rightarrow> bool" where
  "isHolding p = (case p of Holding _ \<Rightarrow> True | Working _ \<Rightarrow> True | _ \<Rightarrow> False)"

fun waiting :: "phase \<Rightarrow> bool" where
  "waiting Received = True"
| "waiting AtEntry = True"
| "waiting _ = False"

fun winner :: "(claimed \<Rightarrow> response) \<Rightarrow> claimed \<Rightarrow> phase \<Rightarrow> bool" where
  "winner work c (Holding x) = (x = c)"
| "winner work c (Working x) = (x = c)"
| "winner work c (Done (Some x) r) = (x = c \<and> (r = work c \<or> r = Fail WalletLocked))"
| "winner work c _ = False"

fun loser :: "failure \<Rightarrow> phase \<Rightarrow> bool" where
  "loser f Received = True"
| "loser f AtEntry = True"
| "loser f (Done None (Fail f')) = (f' = f)"
| "loser f _ = False"

definition raceInv :: "(claimed \<Rightarrow> response) \<Rightarrow> approval \<Rightarrow> claimed \<Rightarrow> registries
    \<Rightarrow> phase \<Rightarrow> phase \<Rightarrow> bool" where
  "raceInv work msg c regs p q =
     ((entryOf msg regs = Some c \<and> waiting p \<and> waiting q)
      \<or> (entryOf msg regs = None \<and> winner work c p \<and> loser (notFoundOf msg) q)
      \<or> (entryOf msg regs = None \<and> winner work c q \<and> loser (notFoundOf msg) p))"

definition refusedInv :: "approval \<Rightarrow> claimed \<Rightarrow> registries \<Rightarrow> phase \<Rightarrow> phase \<Rightarrow> bool" where
  "refusedInv msg c regs p q =
     (entryOf msg regs = Some c \<and> loser SignatureNotVerified p \<and> loser SignatureNotVerified q)"

section \<open>Challenge signature verification (\<open>background/index.ts\<close>)\<close>

text \<open>
  The parsed deep link, the identity lookup and the elliptic-curve recovery are library
  and network calls. A request is modelled by the bytes of its base64 signature (when it
  has one) and its \<open>getChallengeHash\<close>; \<open>recoverAddress\<close> stands for
  \<open>fromCompact\<close>, \<open>addRecoveryBit\<close>, \<open>recoverPublicKey\<close>, \<open>toRawBytes\<close>, \<open>hash160\<close> and
  \<open>toBase58Check\<close> together. \<open>None\<close> stands for a call that throws.
\<close>

record loginRequest =
  rq_signature :: "8 word list option"
  rq_getChallengeHash :: "int \<Rightarrow> nat \<Rightarrow> 8 word list option"

type_synonym recoverAddress = "8 word list \<Rightarrow> nat \<Rightarrow> bool \<Rightarrow> 8 word list \<Rightarrow> jsstring option"

definition readUInt8 :: "8 word list \<Rightarrow> nat \<Rightarrow> nat option" where
  "readUInt8 buf off = (if off < length buf then Some (unat (buf ! off)) else None)"

definition readUInt32LE :: "8 word list \<Rightarrow> nat \<Rightarrow> nat option" where
  "readUInt32LE buf off =
     (if off + 4 \<le> length buf
      then Some (unat (buf ! off) + 256 * unat (buf ! (off + 1))
                 + 65536 * unat (buf ! (off + 2)) + 16777216 * unat (buf ! (off + 3)))
      else None)"

record identitySignature =
  is_sigVersion :: nat
  is_sigBlockHeight :: int
  is_recoveryBit :: nat
  is_compressed :: bool
  is_compactSig :: "8 word list"

text \<open>
  The decoding of the signature buffer, from \<open>sigBuf.readUInt8(offset)\<close> to
  \<open>compactSigBuf.slice(1)\<close>. \<open>None\<close> is either \<open>return false\<close> or a read out of range,
  which throws and is caught by the outer \<open>catch\<close> that returns false.
\<close>

definition parseIdentitySignature :: "8 word list \<Rightarrow> identitySignature option" where
  "parseIdentitySignature sigBuf =
     (case readUInt8 sigBuf 0 of
        None \<Rightarrow> None
      | Some sigVersion \<Rightarrow>
          if sigVersion \<noteq> 1 \<and> sigVersion \<noteq> 2 then None
          else
            let offset = (if sigVersion = 2 then 2 else 1)
            in (case readUInt32LE sigBuf offset of
                 None \<Rightarrow> None
               | Some sigBlockHeight \<Rightarrow>
                   (case readUInt8 sigBuf (offset + 4) of
                      None \<Rightarrow> None
                    | Some numSigs \<Rightarrow>
                        if numSigs < 1 then None
                        else
                          (case readUInt8 sigBuf (offset + 5) of
                             None \<Rightarrow> None
                           | Some sigLen \<Rightarrow>
                               if sigLen \<noteq> 65 \<or> offset + 6 + sigLen > length sigBuf then None
                               else
                                 let compactSigBuf = take sigLen (drop (offset + 6) sigBuf);
                                     recoveryFlag = unat (compactSigBuf ! 0)
                                 in if 31 \<le> recoveryFlag \<and> recoveryFlag \<le> 34
                                    then Some \<lparr>is_sigVersion = sigVersion,
                                           is_sigBlockHeight = int sigBlockHeight,
                                           is_recoveryBit = recoveryFlag - 31,
                                           is_compressed = True,
                                           is_compactSig = drop 1 compactSigBuf\<rparr>
                                    else if 27 \<le> recoveryFlag \<and> recoveryFlag \<le> 30
                                    then Some \<lparr>is_sigVersion = sigVersion,
                                           is_sigBlockHeight = int sigBlockHeight,
                                           is_recoveryBit = recoveryFlag - 27,
                                           is_compressed = False,
                                           is_compactSig = drop 1 compactSigBuf\<rparr>
                                    else None))))"

text \<open>
  \<open>searchHeights\<close>: the signed height, then for \<open>d\<close> from 1 to 5 the height plus \<open>d\<close> and,
  when \<open>sigBlockHeight - d > 0\<close>, the height minus \<open>d\<close>.
\<close>

definition searchHeights :: "int \<Rightarrow> int list" where
  "searchHeights sigBlockHeight =
     sigBlockHeight #
       concat (map (\<lambda>d. (sigBlockHeight + d) #
                        (if sigBlockHeight - d > 0 then [sigBlockHeight - d] else []))
                   [1, 2, 3, 4, 5])"

definition hashVersions :: "nat \<Rightarrow> nat list" where
  "hashVersions sigVersion = [sigVersion, if sigVersion = 2 then 1 else 2]"

text \<open>The body of the inner \<open>try\<close>: the address recovered for one height and hash version.\<close>

definition recoveredAddress :: "recoverAddress \<Rightarrow> loginRequest \<Rightarrow> identitySignature \<Rightarrow> int \<Rightarrow> nat
    \<Rightarrow> jsstring option" where
  "recoveredAddress recover request sig h hashVersion =
     (case rq_getChallengeHash request h hashVersion of
        None \<Rightarrow> None
      | Some hash \<Rightarrow>
          recover (is_compactSig sig) (is_recoveryBit sig) (is_compressed sig) hash)"

text \<open>The two nested loops, with their early return and their \<open>catch { continue }\<close>.\<close>

fun tryHeights :: "recoverAddress \<Rightarrow> loginRequest \<Rightarrow> identitySignature \<Rightarrow> jsstring list \<Rightarrow> nat
    \<Rightarrow> int list \<Rightarrow> bool" where
  "tryHeights recover request sig primaryAddresses hashVersion [] = False"
| "tryHeights recover request sig primaryAddresses hashVersion (h # hs) =
     (case recoveredAddress recover request sig h hashVersion of
        None \<Rightarrow> tryHeights recover request sig primaryAddresses hashVersion hs
      | Some recovered \<Rightarrow>
          if recovered \<in> set primaryAddresses then True
          else tryHeights recover request sig primaryAddresses hashVersion hs)"

fun tryVersions :: "recoverAddress \<Rightarrow> loginRequest \<Rightarrow> identitySignature \<Rightarrow> jsstring list
    \<Rightarrow> int list \<Rightarrow> nat list \<Rightarrow> bool" where
  "tryVersions recover request sig primaryAddresses heights [] = False"
| "tryVersions recover request sig primaryAddresses heights (v # vs) =
     (if tryHeights recover request sig primaryAddresses v heights then True
      else tryVersions recover request sig primaryAddresses heights vs)"

text \<open>
  verifyChallengeSignature. The first argument after \<open>recover\<close> is the parsed deep link
  (\<open>None\<close> when parsing throws), the second the primary addresses of the identity found
  on chain (\<open>None\<close> when the lookup throws).
\<close>

definition verifyChallengeSignature :: "recoverAddress \<Rightarrow> loginRequest option \<Rightarrow> jsstring list option
    \<Rightarrow> bool" where
  "verifyChallengeSignature recover parsed identity =
     (case parsed of
        None \<Rightarrow> False
      | Some request \<Rightarrow>
          (case rq_signature request of
             None \<Rightarrow> False
           | Some sigBuf \<Rightarrow>
               (case identity of
                  None \<Rightarrow> False
                | Some primaryAddresses \<Rightarrow>
                    if length primaryAddresses = 0 then False
                    else
                      (case parseIdentitySignature sigBuf of
                         None \<Rightarrow> False
                       | Some sig \<Rightarrow>
                           tryVersions recover request sig primaryAddresses
                             (searchHeights (is_sigBlockHeight sig))
                             (hashVersions (is_sigVersion sig))))))"

text \<open>
  The search space in the words of the specification: the signed height and the signed
  height plus or minus 1 to 5, skipping negative heights; and the search space of the
  code, which also skips height 0 unless it is the signed height itself.
\<close>

definition specHeights :: "int \<Rightarrow> int set" where
  "specHeights sigBlockHeight = {h. \<bar>h - sigBlockHeight\<bar> \<le> 5 \<and> 0 \<le> h}"

definition codeHeights :: "int \<Rightarrow> int set" where
  "codeHeights sigBlockHeight = {h. \<bar>h - sigBlockHeight\<bar> \<le> 5 \<and> (h = sigBlockHeight \<or> 0 < h)}"

definition bothVersions :: "nat \<Rightarrow> nat set" where
  "bothVersions sigVersion = {sigVersion, if sigVersion = 2 then 1 else 2}"

text \<open>A signature buffer, a request and a recovery function to run the verification on.\<close>

definition signatureAtHeight3 :: "8 word list" where
  "signatureAtHeight3 = [1, 3, 0, 0, 0, 1, 65, 31,
     7, 7, 7, 7, 7, 7, 7, 7, 7, 7, 7, 7, 7, 7, 7, 7, 7, 7, 7, 7, 7, 7, 7, 7,
     7, 7, 7, 7, 7, 7, 7, 7, 7, 7, 7, 7, 7, 7, 7, 7, 7, 7, 7, 7, 7, 7, 7, 7,
     7, 7, 7, 7, 7, 7, 7, 7, 7, 7, 7, 7, 7, 7, 7, 7]"

definition parsedAtHeight3 :: identitySignature where
  "parsedAtHeight3 = \<lparr>is_sigVersion = 1, is_sigBlockHeight = 3, is_recoveryBit = 0,
     is_compressed = True,
     is_compactSig = [7, 7, 7, 7, 7, 7, 7, 7, 7, 7, 7, 7, 7, 7, 7, 7, 7, 7, 7, 7, 7, 7, 7, 7,
       7, 7, 7, 7, 7, 7, 7, 7, 7, 7, 7, 7, 7, 7, 7, 7, 7, 7, 7, 7, 7, 7, 7, 7,
       7, 7, 7, 7, 7, 7, 7, 7, 7, 7, 7, 7, 7, 7, 7, 7]\<rparr>"

text \<open>
  A request whose challenge hash is \<open>[1]\<close> at the height and hash version the signer
  really used and \<open>[0]\<close> elsewhere, and a recovery that yields the signer's address
  \<open>addrS\<close> from the hash \<open>[1]\<close> and another address from any other hash.
\<close>

definition requestSignedAt :: "int \<Rightarrow> nat \<Rightarrow> loginRequest" where
  "requestSignedAt h0 v0 = \<lparr>rq_signature = Some signatureAtHeight3,
     rq_getChallengeHash = (\<lambda>h v. Some (if h = h0 \<and> v = v0 then [1] else [0]))\<rparr>"

definition recoverSigner :: recoverAddress where
  "recoverSigner = (\<lambda>compactSig recoveryBit compressed hash.
     if hash = [1] then Some addrS else Some addrR)"

text \<open>The two approvals of one request under a schedule.\<close>

definition raceOutcome :: "(bool \<times> int \<times> bool) list \<Rightarrow> pendingLogin \<Rightarrow> approval \<Rightarrow> calls" where
  "raceOutcome sched p msg =
     interleave workOk (True, msg) (True, msg) sched (startCalls (registriesWith p))"

section \<open>Properties of the JavaScript numbers\<close>

text \<open>Within \<open>2^53\<close> the doubles are the integers.\<close>

lemma spacingFrom_small: "n < 2 ^ 53 \<Longrightarrow> spacingFrom 1 1 n = 1"
  by (simp add: spacingFrom.simps)

lemma toDouble_exact: "\<bar>x\<bar> \<le> 2 ^ 53 \<Longrightarrow> toDouble x = x"
proof -
  assume a: "\<bar>x\<bar> \<le> 2 ^ 53"
  show ?thesis
  proof (cases "\<bar>x\<bar> < 2 ^ 53")
    case True
    then have "spacingFrom 1 1 \<bar>x\<bar> = 1" by (rule spacingFrom_small)
    then show ?thesis by (simp add: toDouble_def roundHalfEven_def Let_def sgn_if abs_if)
  next
    case False
    with a have e: "\<bar>x\<bar> = 2 ^ 53" by simp
    have "spacingFrom 1 1 (2 ^ 53) = 2" by (simp add: spacingFrom.simps)
    with e show ?thesis
      by (simp add: toDouble_def roundHalfEven_def Let_def sgn_if abs_if split: if_splits)
  qed
qed

text \<open>
  The scaling is positive, a power of two (even, unless it is 1) and large enough; the
  rounding of a quotient is within a half of it.
\<close>

lemma scalingFrom_props:
  assumes "0 < p0" "even p0 \<or> p0 = 1"
  shows "0 < scalingFrom b p0 n
       \<and> (even (scalingFrom b p0 n) \<or> scalingFrom b p0 n = 1 \<and> p0 = 1)
       \<and> (0 < n \<longrightarrow> b * 2 ^ 52 \<le> n * scalingFrom b p0 n)"
  using assms
proof (induction b p0 n rule: scalingFrom.induct)
  case (1 b p n)
  show ?case
  proof (cases "0 < n \<and> 0 < p \<and> n * p < b * 2 ^ 52")
    case True
    then have eq: "scalingFrom b p n = scalingFrom b (2 * p) n"
      by (subst scalingFrom.simps) simp
    have "0 < 2 * p" "even (2 * p) \<or> 2 * p = 1" using "1.prems" by simp_all
    from "1.IH"[OF True this] "1.prems"(1) show ?thesis
      unfolding eq by auto
  next
    case False
    then have eq: "scalingFrom b p n = p"
      by (subst scalingFrom.simps) auto
    from False "1.prems" show ?thesis unfolding eq by auto
  qed
qed

lemma roundHalfEven_bounds:
  assumes "0 < b"
  shows "2 * a - b \<le> 2 * b * roundHalfEven a b \<and> 2 * b * roundHalfEven a b \<le> 2 * a + b"
proof -
  have d: "a = b * (a div b) + a mod b" by simp
  have m: "0 \<le> a mod b" "a mod b < b" using assms by simp_all
  define d0 where "d0 = a div b"
  define r where "r = a mod b"
  have a: "a = b * d0 + r" "0 \<le> r" "r < b" using d m by (simp_all add: d0_def r_def)
  have bd: "b * (d0 + 1) = b * d0 + b" by (simp add: algebra_simps)
  have "roundHalfEven a b = d0 \<and> 2 * r \<le> b \<or> roundHalfEven a b = d0 + 1 \<and> b \<le> 2 * r"
    by (auto simp: roundHalfEven_def Let_def d0_def r_def)
  then show ?thesis
  proof
    assume h: "roundHalfEven a b = d0 \<and> 2 * r \<le> b"
    then show ?thesis using a by (simp add: algebra_simps)
  next
    assume h: "roundHalfEven a b = d0 + 1 \<and> b \<le> 2 * r"
    then show ?thesis using a bd by (simp add: algebra_simps)
  qed
qed



text \<open>
  For a non-negative dividend of at most \<open>2^53\<close>, the rounded quotient by 1000 that
  JavaScript computes is the exact quotient rounded half up; so \<open>roundPerKB\<close> is
  \<open>(size * feeRate + 500) div 1000\<close> while the product is at most \<open>2^53\<close>. Beyond, the
  two differ: for a size of 226 bytes and a rate of 160000000000250 the product is
  rounded to 36160000000056496, and \<open>roundPerKB\<close> is 36160000000056 where the exact
  rounding gives 36160000000057.
\<close>

lemma roundOfQuotient_exact:
  assumes "0 \<le> (a :: int)" "a \<le> 2 ^ 53"
  shows "roundOfQuotient a 1000 = (a + 500) div 1000"
proof -
  consider "a = 0" | "a = 2 ^ 53" | "0 < a" "a < 2 ^ 53" using assms by fastforce
  then show ?thesis
  proof cases
    case 1
    then show ?thesis
      by (simp add: roundOfQuotient_def roundHalfEven_def scalingFrom.simps spacingFrom.simps)
  next
    case 2
    then show ?thesis
      by (simp add: roundOfQuotient_def roundHalfEven_def scalingFrom.simps Let_def)
  next
    case 3
    define p where "p = scalingFrom 1000 1 a"
    define M where "M = roundHalfEven (a * p) 1000"
    define k where "k = (a + 500) div 1000"
    define h where "h = p div 2"
    define A where "A = a * p"
    define K where "K = k * p"
    from scalingFrom_props[of 1 1000 a] 3(1)
    have pp: "0 < p" "even p \<or> p = 1" "1000 * 2 ^ 52 \<le> A"
      by (auto simp: p_def A_def)
    have "A < 2 ^ 53 * p" unfolding A_def using 3(2) pp(1) by (rule mult_strict_right_mono)
    with pp(3) have big: "500 < p" by simp
    with pp(2) have ev: "p = 2 * h" by (auto simp: h_def)
    from roundHalfEven_bounds[of 1000 "a * p"]
    have mb: "2 * A - 1000 \<le> 2000 * M" "2000 * M \<le> 2 * A + 1000"
      by (simp_all add: M_def A_def)
    have kd: "a + 500 = 1000 * k + (a + 500) mod 1000"
      by (simp add: k_def)
    have km: "0 \<le> (a + 500) mod 1000" "(a + 500) mod 1000 < 1000"
      by simp_all
    have k1: "1000 * k \<le> a + 500" "a + 500 \<le> 1000 * k + 999"
      using kd km by linarith+
    have "(1000 * k) * p \<le> (a + 500) * p"
      using k1(1) pp(1) by (intro mult_right_mono) simp_all
    then have K1: "1000 * K \<le> A + 500 * p" by (simp add: K_def A_def algebra_simps)
    have "(a + 500) * p \<le> (1000 * k + 999) * p"
      using k1(2) pp(1) by (intro mult_right_mono) simp_all
    then have K2: "A + 500 * p \<le> 1000 * K + 999 * p" by (simp add: K_def A_def algebra_simps)
    have r0: "0 \<le> M + h - K" using mb K1 ev by linarith
    have r1: "M + h - K < p" using mb K2 ev big by linarith
    have "M + h = p * k + (M + h - K)" by (simp add: K_def algebra_simps)
    from int_div_pos_eq[OF this r0 r1] have "(M + h) div p = k" .
    moreover have "roundOfQuotient a 1000 = (M + h) div p"
      using 3(1) big by (simp add: roundOfQuotient_def p_def M_def h_def Let_def)
    ultimately show ?thesis by (simp add: k_def)
  qed
qed

lemma roundPerKB_exact:
  assumes "0 \<le> txSize * feeRate" "txSize * feeRate \<le> 2 ^ 53"
  shows "roundPerKB txSize feeRate = (txSize * feeRate + 500) div 1000"
proof -
  have "toDouble (txSize * feeRate) = txSize * feeRate"
    using assms by (intro toDouble_exact) simp
  then show ?thesis
    unfolding roundPerKB_def using assms by (simp add: roundOfQuotient_exact)
qed

lemma roundPerKB_rounds:
  "roundPerKB 226 160000000000250 = 36160000000056
   \<and> (226 * 160000000000250 + 500) div 1000 = (36160000000057 :: int)"
  by (simp add: roundPerKB_def toDouble_def roundOfQuotient_def roundHalfEven_def Let_def
      spacingFrom.simps scalingFrom.simps)

section \<open>Properties of the selection\<close>

lemma selectLoopExact_prefix:
  "selectLoopExact us t sel tot = (sel', tot') \<Longrightarrow>
   \<exists>k \<le> length us. sel' = sel @ take k us \<and> tot' = tot + sumValues (take k us)
     \<and> (t \<le> tot' \<or> k = length us)"
proof (induction us arbitrary: sel tot)
  case Nil
  then show ?case by (simp add: sumValues_def)
next
  case (Cons u us)
  show ?case
  proof (cases "t \<le> tot + val u")
    case True
    with Cons.prems have "sel' = sel @ [u]" "tot' = tot + val u" by simp_all
    with True show ?thesis
      by (intro exI[of _ "Suc 0"]) (simp add: sumValues_def)
  next
    case False
    with Cons.prems have "selectLoopExact us t (sel @ [u]) (tot + val u) = (sel', tot')"
      by simp
    from Cons.IH[OF this] obtain k where k: "k \<le> length us"
      "sel' = (sel @ [u]) @ take k us" "tot' = tot + val u + sumValues (take k us)"
      "t \<le> tot' \<or> k = length us" by blast
    then show ?thesis
      by (intro exI[of _ "Suc k"]) (simp add: sumValues_def)
  qed
qed

lemma sumValues_insort:
  "sumValues (insort_key f x xs) = val x + sumValues xs"
  by (induction xs) (simp_all add: sumValues_def)

lemma sumValues_sortDesc: "sumValues (sortDesc us) = sumValues us"
  by (induction us) (simp_all add: sortDesc_def sumValues_insort, simp add: sumValues_def)

lemma sumValues_take_le:
  "\<forall>u \<in> set us. 0 \<le> val u \<Longrightarrow> sumValues (take k us) \<le> sumValues us"
proof -
  assume nn: "\<forall>u \<in> set us. 0 \<le> val u"
  have "sumValues us = sumValues (take k us) + sumValues (drop k us)"
    unfolding sumValues_def by (metis append_take_drop_id map_append sum_list_append)
  moreover have "0 \<le> sumValues (drop k us)"
    unfolding sumValues_def using nn
    by (intro sum_list_nonneg) (auto dest: in_set_dropD)
  ultimately show ?thesis by simp
qed

lemma set_sortDesc: "set (sortDesc us) = set us"
  by (simp add: sortDesc_def)

lemma sortDesc_descending:
  "sorted_wrt (\<lambda>a b. val b \<le> val a) (sortDesc utxos) \<and> mset (sortDesc utxos) = mset utxos"
proof -
  have "sorted (map (\<lambda>u. - val u) (sortDesc utxos))"
    unfolding sortDesc_def by (rule sorted_sort_key)
  then have "sorted_wrt (\<lambda>a b. val b \<le> val a) (sortDesc utxos)"
    by (simp add: sorted_map)
  then show ?thesis by (simp add: sortDesc_def)
qed

text \<open>
  The selection in exact arithmetic: for non-negative values it succeeds with a prefix of
  the sorted list when the values sum to at least the target and fails with the sum and
  the target otherwise.
\<close>

lemma selectUTXOsExact_sufficient_or_fails:
  assumes "\<forall>u \<in> set utxos. 0 \<le> val u"
  shows "sorted_wrt (\<lambda>a b. val b \<le> val a) (sortDesc utxos)
       \<and> mset (sortDesc utxos) = mset utxos
       \<and> (targetSat \<le> sumValues utxos \<longrightarrow>
           (\<exists>selected totalSat. selectUTXOsExact utxos targetSat = Inr (selected, totalSat)
              \<and> selected = take (length selected) (sortDesc utxos)
              \<and> totalSat = sumValues selected \<and> targetSat \<le> totalSat))
       \<and> (sumValues utxos < targetSat \<longrightarrow>
           selectUTXOsExact utxos targetSat = Inl (InsufficientFunds (sumValues utxos) targetSat))"
proof -
  obtain sel tot where st: "selectLoopExact (sortDesc utxos) targetSat [] 0 = (sel, tot)"
    by (cases "selectLoopExact (sortDesc utxos) targetSat [] 0")
  from selectLoopExact_prefix[OF st] obtain k where k: "k \<le> length (sortDesc utxos)"
    "sel = take k (sortDesc utxos)" "tot = sumValues (take k (sortDesc utxos))"
    "targetSat \<le> tot \<or> k = length (sortDesc utxos)" by auto
  have nn: "\<forall>u \<in> set (sortDesc utxos). 0 \<le> val u"
    using assms by (simp add: set_sortDesc)
  have le: "tot \<le> sumValues utxos"
    using sumValues_take_le[OF nn, of k] k(3) by (simp add: sumValues_sortDesc)
  have len: "length sel = k" using k(1,2) by simp
  show ?thesis
  proof (intro conjI impI)
    show "sorted_wrt (\<lambda>a b. val b \<le> val a) (sortDesc utxos)"
      using sortDesc_descending by blast
  next
    show "mset (sortDesc utxos) = mset utxos"
      using sortDesc_descending by blast
  next
    assume suff: "targetSat \<le> sumValues utxos"
    have "targetSat \<le> tot"
      using k(4) k(3) suff by (auto simp: sumValues_sortDesc)
    then show "\<exists>selected totalSat. selectUTXOsExact utxos targetSat = Inr (selected, totalSat)
              \<and> selected = take (length selected) (sortDesc utxos)
              \<and> totalSat = sumValues selected \<and> targetSat \<le> totalSat"
      using st k(2,3) len by (simp add: selectUTXOsExact_def)
  next
    assume insuff: "sumValues utxos < targetSat"
    with le have lt: "tot < targetSat" by simp
    with k(4) have "k = length (sortDesc utxos)" by simp
    with k(3) have "tot = sumValues utxos" by (simp add: sumValues_sortDesc)
    with lt st show "selectUTXOsExact utxos targetSat
        = Inl (InsufficientFunds (sumValues utxos) targetSat)"
      by (simp add: selectUTXOsExact_def)
  qed
qed

text \<open>
  The sum of doubles is the exact sum as long as the values are non-negative and sum to
  at most \<open>2^53\<close>.
\<close>

lemma selectLoop_exact:
  assumes "\<forall>u \<in> set us. 0 \<le> val u" "0 \<le> tot" "tot + sumValues us \<le> 2 ^ 53"
  shows "selectLoop us t sel tot = selectLoopExact us t sel tot"
  using assms
proof (induction us arbitrary: sel tot)
  case Nil
  then show ?case by simp
next
  case (Cons u us)
  have nn: "0 \<le> val u" "\<forall>u \<in> set us. 0 \<le> val u" using Cons.prems(1) by simp_all
  have rest: "0 \<le> sumValues us"
    unfolding sumValues_def using nn(2) by (intro sum_list_nonneg) auto
  have bound: "tot + val u + sumValues us \<le> 2 ^ 53"
    using Cons.prems(3) by (simp add: sumValues_def)
  have "\<bar>tot + val u\<bar> \<le> 2 ^ 53" using nn(1) Cons.prems(2) rest bound by simp
  then have ex: "jsAdd tot (val u) = tot + val u"
    unfolding jsAdd_def by (rule toDouble_exact)
  have ih: "selectLoop us t (sel @ [u]) (tot + val u)
      = selectLoopExact us t (sel @ [u]) (tot + val u)"
    using nn Cons.prems(2) bound by (intro Cons.IH) simp_all
  show ?case by (simp add: ex ih Let_def)
qed

lemma selectUTXOs_exact:
  assumes "\<forall>u \<in> set utxos. 0 \<le> val u" "sumValues utxos \<le> 2 ^ 53"
  shows "selectUTXOs utxos targetSat = selectUTXOsExact utxos targetSat"
proof -
  have "selectLoop (sortDesc utxos) targetSat [] 0
      = selectLoopExact (sortDesc utxos) targetSat [] 0"
    using assms by (intro selectLoop_exact) (simp_all add: set_sortDesc sumValues_sortDesc)
  then show ?thesis by (simp add: selectUTXOs_def selectUTXOsExact_def)
qed

text \<open>
  C2, as amended. The sorted list is a permutation of the UTXOs in descending order of
  value. For UTXOs with non-negative values that sum to at most \<open>2^53\<close>: when the values
  sum to at least the target, \<open>selectUTXOs\<close> returns a selection that is a prefix of that
  sorted list (the largest first) and whose total, the sum of the selected values, is at
  least the target; when they sum to less, it fails with the insufficient-funds error
  carrying the sum (have) and the target (need).
\<close>

theorem selectUTXOs_sufficient_or_fails:
  assumes "\<forall>u \<in> set utxos. 0 \<le> val u"
    and "sumValues utxos \<le> 2 ^ 53"
  shows "sorted_wrt (\<lambda>a b. val b \<le> val a) (sortDesc utxos)
       \<and> mset (sortDesc utxos) = mset utxos
       \<and> (targetSat \<le> sumValues utxos \<longrightarrow>
           (\<exists>selected totalSat. selectUTXOs utxos targetSat = Inr (selected, totalSat)
              \<and> selected = take (length selected) (sortDesc utxos)
              \<and> totalSat = sumValues selected \<and> targetSat \<le> totalSat))
       \<and> (sumValues utxos < targetSat \<longrightarrow>
           selectUTXOs utxos targetSat = Inl (InsufficientFunds (sumValues utxos) targetSat))"
  unfolding selectUTXOs_exact[OF assms]
  by (rule selectUTXOsExact_sufficient_or_fails[OF assms(1)])

text \<open>
  C2, on the end-to-end scenario of the specification: of the UTXOs of 3000000 and
  50000000 units the larger alone covers 10010000, and 60000000 exceeds their sum.
\<close>

theorem selectUTXOs_sufficient_or_fails_witness:
  "selectUTXOs [utxoB, utxoA] 10010000 = Inr ([utxoA], 50000000)
   \<and> sumValues [utxoA] = 50000000
   \<and> selectUTXOs [utxoB, utxoA] 60000000 = Inl (InsufficientFunds 53000000 60000000)"
proof -
  have nn: "\<forall>u \<in> set [utxoB, utxoA]. 0 \<le> val u"
    by (simp add: utxoA_def utxoB_def)
  have s: "sumValues [utxoB, utxoA] = 53000000" "sortDesc [utxoB, utxoA] = [utxoA, utxoB]"
    by (simp_all add: sumValues_def sortDesc_def utxoA_def utxoB_def)
  have b: "sumValues [utxoB, utxoA] \<le> 2 ^ 53"
    by (simp add: s)
  have t: "(10010000 :: int) \<le> sumValues [utxoB, utxoA]"
    "sumValues [utxoB, utxoA] < (60000000 :: int)"
    by (simp_all add: s)
  from selectUTXOs_sufficient_or_fails[OF nn b, of 10010000] t(1) obtain selected totalSat where
    r: "selectUTXOs [utxoB, utxoA] 10010000 = Inr (selected, totalSat)"
      "selected = take (length selected) (sortDesc [utxoB, utxoA])"
      "totalSat = sumValues selected" "10010000 \<le> totalSat"
    by blast
  have a: "selectUTXOs [utxoB, utxoA] 10010000 = Inr ([utxoA], 50000000)"
    by (simp add: selectUTXOs_def sortDesc_def utxoA_def utxoB_def jsAdd_def toDouble_def
        roundHalfEven_def spacingFrom.simps)
  from r(1,3) a have v: "sumValues [utxoA] = 50000000" by simp
  from selectUTXOs_sufficient_or_fails[OF nn b, of 60000000] t(2) s(1)
  have c: "selectUTXOs [utxoB, utxoA] 60000000 = Inl (InsufficientFunds 53000000 60000000)"
    by simp
  from a v c show ?thesis by simp
qed

text \<open>
  C2 as stated fails beyond \<open>2^53\<close>. The UTXOs of 9007199254740991 and 4 units sum to
  9007199254740995, which is below the target 9007199254740996 (an amount of
  9007199254730996 plus the minimum fee); the running total of doubles rounds the sum
  to 9007199254740996, and \<open>selectUTXOs\<close> returns the two UTXOs instead of failing.
\<close>

theorem selectUTXOs_rounding_counterexample:
  "selectUTXOs [utxoMaxSafe, utxoFour] 9007199254740996
     = Inr ([utxoMaxSafe, utxoFour], 9007199254740996)
   \<and> sumValues [utxoMaxSafe, utxoFour] = 9007199254740995
   \<and> sumValues [utxoMaxSafe, utxoFour] < 9007199254740996
   \<and> 0 \<le> val utxoMaxSafe \<and> 0 \<le> val utxoFour
   \<and> isSafeInteger (val utxoMaxSafe) \<and> isSafeInteger (val utxoFour)
   \<and> 9007199254740996 = 9007199254730996 + MIN_FEE
   \<and> isSafeInteger 9007199254730996
   \<and> selectUTXOsExact [utxoMaxSafe, utxoFour] 9007199254740996
     = Inl (InsufficientFunds 9007199254740995 9007199254740996)"
proof -
  have a: "selectUTXOs [utxoMaxSafe, utxoFour] 9007199254740996
     = Inr ([utxoMaxSafe, utxoFour], 9007199254740996)"
    by (simp add: selectUTXOs_def sortDesc_def utxoMaxSafe_def utxoFour_def jsAdd_def
        toDouble_def roundHalfEven_def spacingFrom.simps)
  have b: "sumValues [utxoMaxSafe, utxoFour] = 9007199254740995"
    by (simp add: sumValues_def utxoMaxSafe_def utxoFour_def)
  have c: "0 \<le> val utxoMaxSafe \<and> 0 \<le> val utxoFour
     \<and> isSafeInteger (val utxoMaxSafe) \<and> isSafeInteger (val utxoFour)
     \<and> isSafeInteger 9007199254730996"
    by (simp add: utxoMaxSafe_def utxoFour_def isSafeInteger_def)
  have d: "selectUTXOsExact [utxoMaxSafe, utxoFour] 9007199254740996
     = Inl (InsufficientFunds 9007199254740995 9007199254740996)"
    by (simp add: selectUTXOsExact_def sortDesc_def utxoMaxSafe_def utxoFour_def)
  from a b c d show ?thesis by (simp add: MIN_FEE_def)
qed

section \<open>Properties of the fee fitting\<close>




lemma feeLoopTrace_props:
  "feeLoopTrace n utxos feeRate amountSat fee sel tot = (fees, calls, r) \<Longrightarrow>
   calls \<le> n \<and> sorted_wrt (<) (fee # fees)
   \<and> r = feeLoop n utxos feeRate amountSat fee sel tot"
proof (induction n arbitrary: fee sel tot fees calls r)
  case 0
  then show ?case by auto
next
  case (Suc n)
  let ?nf = "newFeeFor (length sel) feeRate"
  show ?case
  proof (cases "?nf \<le> fee")
    case True
    with Suc.prems show ?thesis by auto
  next
    case False
    show ?thesis
    proof (cases "selectUTXOsExact utxos (amountSat + ?nf)")
      case (Inl e)
      with False Suc.prems show ?thesis by (auto simp: Let_def)
    next
      case (Inr p)
      obtain s2 t2 where p: "p = (s2, t2)" by (cases p)
      obtain fs cs r2 where rec: "feeLoopTrace n utxos feeRate amountSat ?nf s2 t2 = (fs, cs, r2)"
        by (cases "feeLoopTrace n utxos feeRate amountSat ?nf s2 t2")
      from Suc.IH[OF rec] have ih: "cs \<le> n" "sorted_wrt (<) (?nf # fs)"
        "r2 = feeLoop n utxos feeRate amountSat ?nf s2 t2" by simp_all
      from Suc.prems False Inr p rec have eq: "fees = ?nf # fs" "calls = Suc cs" "r = r2"
        by (simp_all add: Let_def)
      from False have lt: "fee < ?nf" by simp
      have "sorted_wrt (<) (fee # ?nf # fs)"
        using ih(2) lt by auto
      with eq ih False Inr p show ?thesis by (simp add: Let_def)
    qed
  qed
qed

text \<open>
  C3. For every UTXO set, fee rate and amount, the fee-fitting loop calls the selection at
  most 5 times after the initial selection, and the values the variable \<open>fee\<close> takes are
  non-decreasing (indeed strictly increasing), starting from the minimum fee of 10000.
  The traced loop returns what the loop of the source returns.
\<close>

theorem fee_fitting_bounded_monotone:
  "fst (snd (fitFeeTrace utxos feeRate amountSat)) \<le> 5
   \<and> sorted (fst (fitFeeTrace utxos feeRate amountSat))
   \<and> sorted_wrt (<) (fst (fitFeeTrace utxos feeRate amountSat))
   \<and> hd (fst (fitFeeTrace utxos feeRate amountSat)) = 10000
   \<and> MIN_FEE = 10000
   \<and> snd (snd (fitFeeTrace utxos feeRate amountSat)) = fitFee utxos feeRate amountSat"
proof (cases "selectUTXOsExact utxos (amountSat + MIN_FEE)")
  case (Inl e)
  then show ?thesis by (simp add: fitFeeTrace_def fitFee_def MIN_FEE_def)
next
  case (Inr p)
  obtain s t where p: "p = (s, t)" by (cases p)
  obtain fs cs r where rec: "feeLoopTrace 5 utxos feeRate amountSat MIN_FEE s t = (fs, cs, r)"
    by (cases "feeLoopTrace 5 utxos feeRate amountSat MIN_FEE s t")
  from feeLoopTrace_props[OF rec] have props: "cs \<le> 5" "sorted_wrt (<) (MIN_FEE # fs)"
    "r = feeLoop 5 utxos feeRate amountSat MIN_FEE s t" by simp_all
  have tr: "fitFeeTrace utxos feeRate amountSat = (MIN_FEE # fs, cs, r)"
    using Inr p rec by (simp add: fitFeeTrace_def)
  have so: "sorted (MIN_FEE # fs)"
    using props(2) by (rule strict_sorted_imp_sorted)
  show ?thesis
    unfolding tr using props so Inr p
    by (simp add: fitFee_def MIN_FEE_def)
qed

section \<open>Properties of the plain-transfer builder\<close>










lemma buildTransaction_Inr:
  assumes "buildTransaction lib wif utxos feeRate toAddress amountSat = Inr t"
  shows "\<exists>txb fee' out outs.
           buildRequest lib wif utxos feeRate toAddress amountSat = Inr (txb, fee')
         \<and> lib_build lib txb = Some t \<and> tx_outs t = out # outs
         \<and> lib_fromOutputScript lib (out_script out) = Some toAddress
         \<and> out_value out = amountSat"
  using assms unfolding buildTransaction_def
  by (auto split: sum.splits option.splits list.splits if_splits)

text \<open>
  C1. When buildTransaction succeeds, the first output of the transaction it returns
  decodes to the requested recipient address and carries the requested amount; and when
  the transaction the library built has a first output that decodes to another address
  or carries another value, buildTransaction fails with a verification failure.
\<close>

theorem buildTransaction_first_output_verified:
  "(buildTransaction lib wif utxos feeRate toAddress amountSat = Inr t \<longrightarrow>
      (\<exists>out outs. tx_outs t = out # outs
         \<and> lib_fromOutputScript lib (out_script out) = Some toAddress
         \<and> out_value out = amountSat))
   \<and> (buildRequest lib wif utxos feeRate toAddress amountSat = Inr (txb, fee')
        \<and> lib_build lib txb = Some t' \<and> tx_outs t' = out' # outs'
        \<and> lib_fromOutputScript lib (out_script out') = Some decodedAddr
        \<and> (decodedAddr \<noteq> toAddress \<or> out_value out' \<noteq> amountSat) \<longrightarrow>
      (\<exists>e. buildTransaction lib wif utxos feeRate toAddress amountSat = Inl e
         \<and> isVerificationFailure e))"
proof (intro conjI impI)
  assume "buildTransaction lib wif utxos feeRate toAddress amountSat = Inr t"
  from buildTransaction_Inr[OF this]
  show "\<exists>out outs. tx_outs t = out # outs
         \<and> lib_fromOutputScript lib (out_script out) = Some toAddress
         \<and> out_value out = amountSat" by blast
next
  assume "buildRequest lib wif utxos feeRate toAddress amountSat = Inr (txb, fee')
        \<and> lib_build lib txb = Some t' \<and> tx_outs t' = out' # outs'
        \<and> lib_fromOutputScript lib (out_script out') = Some decodedAddr
        \<and> (decodedAddr \<noteq> toAddress \<or> out_value out' \<noteq> amountSat)"
  then show "\<exists>e. buildTransaction lib wif utxos feeRate toAddress amountSat = Inl e
         \<and> isVerificationFailure e"
    by (auto simp: buildTransaction_def isVerificationFailure_def)
qed

text \<open>
  C1 on a run: the example library builds what was asked and the check passes; a
  library that pays the first output to the sender is caught by the check.
\<close>

theorem buildTransaction_first_output_verified_witness:
  "buildTransaction exampleLib wifS [utxoA, utxoB] 10000 addrR 10000000 = Inr txTwoOutputs
   \<and> (\<exists>out outs. tx_outs txTwoOutputs = out # outs
         \<and> lib_fromOutputScript exampleLib (out_script out) = Some addrR
         \<and> out_value out = 10000000)
   \<and> (\<exists>e. buildTransaction misdirectingLib wifS [utxoA, utxoB] 10000 addrR 10000000 = Inl e
         \<and> isVerificationFailure e)"
proof -
  have ok: "buildTransaction exampleLib wifS [utxoA, utxoB] 10000 addrR 10000000 = Inr txTwoOutputs"
    by code_simp
  have req: "buildRequest misdirectingLib wifS [utxoA, utxoB] 10000 addrR 10000000
      = Inr (\<lparr>b_version = 4, b_versionGroupId = 2301567109, b_expiryHeight = 0,
         b_inputs = [\<lparr>in_hash = [97], in_index = 0, in_sequence = 4294967295,
               in_prevOutScript = [118, 2]\<rparr>],
         b_outputs = [([82, 65], 10000000), ([82, 66], 39990000)],
         b_signs = [(0, [85, 120], 1, 50000000)]\<rparr>, 10000)
     \<and> lib_build misdirectingLib \<lparr>b_version = 4, b_versionGroupId = 2301567109, b_expiryHeight = 0,
         b_inputs = [\<lparr>in_hash = [97], in_index = 0, in_sequence = 4294967295,
               in_prevOutScript = [118, 2]\<rparr>],
         b_outputs = [([82, 65], 10000000), ([82, 66], 39990000)],
         b_signs = [(0, [85, 120], 1, 50000000)]\<rparr>
       = Some \<lparr>tx_ins = [([0x61], 0)],
           tx_outs = [\<lparr>out_script = [0x76, 0x02], out_value = 10000000\<rparr>,
                \<lparr>out_script = [0x76, 0x02], out_value = 39990000\<rparr>]\<rparr>
     \<and> lib_fromOutputScript misdirectingLib [0x76, 0x02] = Some addrS
     \<and> addrS \<noteq> addrR"
    by code_simp
  from buildTransaction_first_output_verified
    [of exampleLib wifS "[utxoA, utxoB]" 10000 addrR 10000000 txTwoOutputs] ok
  have first: "\<exists>out outs. tx_outs txTwoOutputs = out # outs
         \<and> lib_fromOutputScript exampleLib (out_script out) = Some addrR
         \<and> out_value out = 10000000" by blast
  from buildTransaction_first_output_verified
    [where lib = misdirectingLib and wif = wifS and utxos = "[utxoA, utxoB]" and feeRate = 10000
       and toAddress = addrR and amountSat = 10000000 and fee' = 10000
       and txb = "\<lparr>b_version = 4, b_versionGroupId = 2301567109, b_expiryHeight = 0,
         b_inputs = [\<lparr>in_hash = [97], in_index = 0, in_sequence = 4294967295,
               in_prevOutScript = [118, 2]\<rparr>],
         b_outputs = [([82, 65], 10000000), ([82, 66], 39990000)],
         b_signs = [(0, [85, 120], 1, 50000000)]\<rparr>"
       and t' = "\<lparr>tx_ins = [([0x61], 0)],
           tx_outs = [\<lparr>out_script = [0x76, 0x02], out_value = 10000000\<rparr>,
                \<lparr>out_script = [0x76, 0x02], out_value = 39990000\<rparr>]\<rparr>"
       and out' = "\<lparr>out_script = [0x76, 0x02], out_value = 10000000\<rparr>"
       and outs' = "[\<lparr>out_script = [0x76, 0x02], out_value = 39990000\<rparr>]"
       and decodedAddr = addrS] req
  have second: "\<exists>e. buildTransaction misdirectingLib wifS [utxoA, utxoB] 10000 addrR 10000000 = Inl e
         \<and> isVerificationFailure e" by simp
  from ok first second show ?thesis by blast
qed





section \<open>Properties of the address validation\<close>

text \<open>
  The result of \<open>isValidAddress\<close> is a Boolean for every string and every behaviour of the
  decoder: it is true exactly for the printable strings that decode to one of the two
  versions of the network, and an exception of the decoder gives false.
\<close>

lemma isValidAddress_iff:
  "isValidAddress lib address \<longleftrightarrow>
     printableAscii address
     \<and> (\<exists>version hash. lib_fromBase58Check lib address = Some (version, hash)
           \<and> (version = lib_pubKeyHash lib \<or> version = lib_scriptHash lib))"
  by (auto simp: isValidAddress_def isValidAddressBody_def split: option.splits)

lemma isValidAddress_decoder_throws:
  "lib_fromBase58Check lib address = None \<Longrightarrow> \<not> isValidAddress lib address"
  by (simp add: isValidAddress_iff)

text \<open>
  C9. \<open>isValidAddress\<close> has no bound on the length of its argument: on a string of 101
  characters \<open>1\<close> it runs the regular-expression test and then the base58check
  decoding, both on all 101 code units, whatever the library's decoder answers.
\<close>

theorem isValidAddress_no_length_bound:
  "isValidAddressWork lib (replicate 101 0x31) = [RegexTest 101, Base58CheckDecode 101]"
proof -
  have "list_all (\<lambda>c. 0x20 \<le> c \<and> c \<le> 0x7E) (replicate 101 (0x31 :: 16 word))"
    by (simp add: list_all_iff)
  moreover have "replicate 101 (0x31 :: 16 word) \<noteq> []"
    by simp
  ultimately have "printableAscii (replicate 101 0x31)"
    by (simp add: printableAscii_def)
  then show ?thesis
    by (simp add: isValidAddressWork_def isValidAddressBody_def split: option.splits)
qed

section \<open>Properties of the vault encryption\<close>

lemma ucast_ucast_byte: "(ucast (ucast (b :: 8 word) :: 16 word) :: 8 word) = b"
  by (rule ucast_up_ucast_id) (simp add: is_up)

lemma map_ucast_ucast_byte:
  "map ucast (map ucast bytes :: 16 word list) = (bytes :: 8 word list)"
  by (induction bytes) (simp_all add: ucast_ucast_byte)

text \<open>
  The blob that \<open>encryptVault\<close> returns decodes to the salt in the first 16 bytes, the IV
  in the next 12 and the ciphertext in the rest.
\<close>

lemma encryptVault_frame:
  assumes "length salt = SALT_LENGTH" "length iv = IV_LENGTH" "base64Inverts pf"
    and "encryptVault pf salt iv plaintext password = Inr blob"
  shows "\<exists>binary. pf_atob pf blob = Some binary
       \<and> slice_array (map ucast binary) 0 SALT_LENGTH = salt
       \<and> slice_array (map ucast binary) SALT_LENGTH (SALT_LENGTH + IV_LENGTH) = iv
       \<and> drop (SALT_LENGTH + IV_LENGTH) (map ucast binary)
           = pf_aesGcmEncrypt pf (deriveKey pf password salt PBKDF2_ITERATIONS) iv
               (pf_textEncode pf plaintext)"
proof -
  let ?ct = "pf_aesGcmEncrypt pf (deriveKey pf password salt PBKDF2_ITERATIONS) iv
               (pf_textEncode pf plaintext)"
  let ?bin = "map ucast (salt @ iv @ ?ct) :: jsstring"
  from assms(4) have blob: "blob = pf_btoa pf ?bin"
    by (auto simp: encryptVault_def fromCharCode_def Let_def split: if_splits)
  from assms(3) have at: "pf_atob pf blob = Some ?bin"
    unfolding blob base64Inverts_def by blast
  have bk: "map ucast ?bin = salt @ iv @ ?ct"
    by (rule map_ucast_ucast_byte)
  have p1: "slice_array (map ucast ?bin) 0 SALT_LENGTH = salt"
    unfolding bk using assms(1) by (simp add: slice_array_def)
  have p2: "slice_array (map ucast ?bin) SALT_LENGTH (SALT_LENGTH + IV_LENGTH) = iv"
    unfolding bk using assms(1,2) by (simp add: slice_array_def)
  have p3: "drop (SALT_LENGTH + IV_LENGTH) (map ucast ?bin) = ?ct"
    unfolding bk using assms(1,2) by simp
  from at p1 p2 p3 show ?thesis by blast
qed

lemma decryptVault_framed:
  assumes at: "pf_atob pf blob = Some binary"
    and p1: "slice_array (map ucast binary) 0 SALT_LENGTH = salt"
    and p2: "slice_array (map ucast binary) SALT_LENGTH (SALT_LENGTH + IV_LENGTH) = iv"
    and p3: "drop (SALT_LENGTH + IV_LENGTH) (map ucast binary) = ct"
  shows "decryptVault pf blob password iterations
      = (case pf_aesGcmDecrypt pf (deriveKey pf password salt iterations) iv ct of
           None \<Rightarrow> Inl OperationError
         | Some plaintext \<Rightarrow> Inr (pf_textDecode pf plaintext))"
  unfolding decryptVault_def Let_def at
  apply (simp only: option.case)
  apply (subst p1)
  apply (simp only: p2 p3)
  done

lemma deriveKey_same_encoding:
  "pf_textEncode pf password' = pf_textEncode pf password \<Longrightarrow>
   deriveKey pf password' = deriveKey pf password"
  by (simp add: deriveKey_def fun_eq_iff)

lemma decryptVault_same_encoding:
  "pf_textEncode pf password' = pf_textEncode pf password \<Longrightarrow>
   decryptVault pf blob password' iterations = decryptVault pf blob password iterations"
proof -
  assume "pf_textEncode pf password' = pf_textEncode pf password"
  then have k: "deriveKey pf password' = deriveKey pf password"
    by (rule deriveKey_same_encoding)
  show ?thesis unfolding decryptVault_def k by (rule refl)
qed

lemma encryptVault_same_encoding:
  "pf_textEncode pf password' = pf_textEncode pf password \<Longrightarrow>
   pf_textEncode pf plaintext' = pf_textEncode pf plaintext \<Longrightarrow>
   encryptVault pf salt iv plaintext' password' = encryptVault pf salt iv plaintext password"
proof -
  assume "pf_textEncode pf password' = pf_textEncode pf password"
  then have k: "deriveKey pf password' = deriveKey pf password"
    by (rule deriveKey_same_encoding)
  assume p: "pf_textEncode pf plaintext' = pf_textEncode pf plaintext"
  show ?thesis unfolding encryptVault_def k p by (rule refl)
qed

text \<open>
  C5, as amended. Let \<open>encryptVault\<close>, with a salt of 16 bytes and an IV of 12, return a
  blob for a plaintext and a password, on a platform whose \<open>atob\<close> inverts \<open>btoa\<close> and
  whose AES-GCM decryption inverts encryption. Then \<open>decryptVault\<close> with the same password
  and the default iteration count returns the decoding of the encoded plaintext: the
  plaintext itself when the decoder gives it back from its encoding. With another
  password whose derived key differs, on a platform whose AES-GCM rejects every other
  key, \<open>decryptVault\<close> fails with the decryption error of the platform and returns no
  plaintext. With another password that has the same encoding, \<open>decryptVault\<close> returns
  what it returns with the password itself.
\<close>

theorem vault_round_trip:
  assumes "length salt = SALT_LENGTH" "length iv = IV_LENGTH"
    and "base64Inverts pf" "aesGcmInverts pf"
    and "encryptVault pf salt iv plaintext password = Inr blob"
  shows "decryptVault pf blob password PBKDF2_ITERATIONS
           = Inr (pf_textDecode pf (pf_textEncode pf plaintext))
       \<and> (pf_textDecode pf (pf_textEncode pf plaintext) = plaintext \<longrightarrow>
             decryptVault pf blob password PBKDF2_ITERATIONS = Inr plaintext)
       \<and> (\<forall>password'. aesGcmRejects pf
             \<and> deriveKey pf password' salt PBKDF2_ITERATIONS
                 \<noteq> deriveKey pf password salt PBKDF2_ITERATIONS \<longrightarrow>
             decryptVault pf blob password' PBKDF2_ITERATIONS = Inl OperationError)
       \<and> (\<forall>password' iterations. pf_textEncode pf password' = pf_textEncode pf password \<longrightarrow>
             decryptVault pf blob password' iterations = decryptVault pf blob password iterations)"
proof -
  let ?key = "deriveKey pf password salt PBKDF2_ITERATIONS"
  let ?ct = "pf_aesGcmEncrypt pf ?key iv (pf_textEncode pf plaintext)"
  from encryptVault_frame[OF assms(1,2,3,5)] obtain binary where
    at: "pf_atob pf blob = Some binary"
    and p1: "slice_array (map ucast binary) 0 SALT_LENGTH = salt"
    and p2: "slice_array (map ucast binary) SALT_LENGTH (SALT_LENGTH + IV_LENGTH) = iv"
    and p3: "drop (SALT_LENGTH + IV_LENGTH) (map ucast binary) = ?ct"
    by blast
  note dec = decryptVault_framed[OF at p1 p2 p3]
  have inv: "pf_aesGcmDecrypt pf ?key iv ?ct = Some (pf_textEncode pf plaintext)"
    using assms(4) unfolding aesGcmInverts_def by blast
  have a: "decryptVault pf blob password PBKDF2_ITERATIONS
           = Inr (pf_textDecode pf (pf_textEncode pf plaintext))"
    unfolding dec inv by simp
  have a2: "pf_textDecode pf (pf_textEncode pf plaintext) = plaintext \<longrightarrow>
             decryptVault pf blob password PBKDF2_ITERATIONS = Inr plaintext"
    using a by simp
  have b: "\<forall>password'. aesGcmRejects pf
             \<and> deriveKey pf password' salt PBKDF2_ITERATIONS \<noteq> ?key \<longrightarrow>
             decryptVault pf blob password' PBKDF2_ITERATIONS = Inl OperationError"
  proof (intro allI impI)
    fix password'
    assume h: "aesGcmRejects pf \<and> deriveKey pf password' salt PBKDF2_ITERATIONS \<noteq> ?key"
    then have "pf_aesGcmDecrypt pf (deriveKey pf password' salt PBKDF2_ITERATIONS) iv ?ct = None"
      unfolding aesGcmRejects_def by blast
    then show "decryptVault pf blob password' PBKDF2_ITERATIONS = Inl OperationError"
      unfolding dec by simp
  qed
  have c: "\<forall>password' iterations. pf_textEncode pf password' = pf_textEncode pf password \<longrightarrow>
             decryptVault pf blob password' iterations = decryptVault pf blob password iterations"
    using decryptVault_same_encoding by blast
  show ?thesis
    by (rule conjI[OF a conjI[OF a2 conjI[OF b c]]])
qed

lemmas vault_example_defs = toyPlatform_def encryptVault_def decryptVault_def deriveKey_def
  fromCharCode_def slice_array_def exampleSalt_def exampleIv_def examplePlaintext_def
  exampleBlob_def goodPassword_def badPassword_def surrogatePasswordA_def
  surrogatePasswordB_def PBKDF2_ITERATIONS_def SALT_LENGTH_def IV_LENGTH_def
  isHighSurrogate_def isLowSurrogate_def utf8Bytes_def Let_def

text \<open>
  C5 on a run of the example platform: the blob is the salt, the IV and the ciphertext;
  the password that encrypted it gives the plaintext back, another password is rejected.
\<close>

theorem vault_round_trip_witness:
  "encryptVault toyPlatform exampleSalt exampleIv examplePlaintext goodPassword
     = Inr (exampleBlob 111)
   \<and> decryptVault toyPlatform (exampleBlob 111) goodPassword PBKDF2_ITERATIONS
     = Inr examplePlaintext
   \<and> decryptVault toyPlatform (exampleBlob 111) badPassword PBKDF2_ITERATIONS
     = Inl OperationError"
proof -
  have len: "length exampleSalt = SALT_LENGTH" "length exampleIv = IV_LENGTH"
    by (simp_all add: exampleSalt_def exampleIv_def SALT_LENGTH_def IV_LENGTH_def)
  have b64: "base64Inverts toyPlatform"
    by (simp add: base64Inverts_def toyPlatform_def)
  have inv: "aesGcmInverts toyPlatform"
    by (simp add: aesGcmInverts_def toyPlatform_def)
  have rej: "aesGcmRejects toyPlatform"
    by (simp add: aesGcmRejects_def toyPlatform_def)
  have enc: "encryptVault toyPlatform exampleSalt exampleIv examplePlaintext goodPassword
      = Inr (exampleBlob 111)"
    by (simp add: vault_example_defs)
  have dd: "pf_textDecode toyPlatform (pf_textEncode toyPlatform examplePlaintext)
      = examplePlaintext"
    by (simp add: vault_example_defs)
  have keys: "deriveKey toyPlatform badPassword exampleSalt PBKDF2_ITERATIONS
      \<noteq> deriveKey toyPlatform goodPassword exampleSalt PBKDF2_ITERATIONS"
    by (simp add: vault_example_defs)
  note inst = vault_round_trip[OF len b64 inv enc]
  from inst dd have a: "decryptVault toyPlatform (exampleBlob 111) goodPassword PBKDF2_ITERATIONS
      = Inr examplePlaintext"
    by simp
  from inst[THEN conjunct2, THEN conjunct2, THEN conjunct1, rule_format, of badPassword] rej keys
  have b: "decryptVault toyPlatform (exampleBlob 111) badPassword PBKDF2_ITERATIONS
      = Inl OperationError"
    by simp
  from enc a b show ?thesis by simp
qed

text \<open>
  C5 as stated fails for strings with lone surrogates, which the encoder replaces by
  U+FFFD. The two passwords \<open>surrogatePasswordA\<close> and \<open>surrogatePasswordB\<close> differ and
  have the same encoding: on every platform with this encoder \<open>encryptVault\<close> returns the
  same blob for both and \<open>decryptVault\<close> does the same with both, so the blob encrypted
  under the one is opened by the other; on the example platform the other password
  returns the plaintext. Likewise the two plaintexts of one lone surrogate each differ
  and are encrypted to the same blob, from which \<open>decryptVault\<close> cannot return both.
\<close>

theorem vault_same_encoding_counterexample:
  "surrogatePasswordA \<noteq> surrogatePasswordB
   \<and> utf8Encode surrogatePasswordB = utf8Encode surrogatePasswordA
   \<and> (\<forall>pf salt iv plaintext.
         encryptVault (pf\<lparr>pf_textEncode := utf8Encode\<rparr>) salt iv plaintext surrogatePasswordB
           = encryptVault (pf\<lparr>pf_textEncode := utf8Encode\<rparr>) salt iv plaintext surrogatePasswordA)
   \<and> (\<forall>pf blob iterations.
         decryptVault (pf\<lparr>pf_textEncode := utf8Encode\<rparr>) blob surrogatePasswordB iterations
           = decryptVault (pf\<lparr>pf_textEncode := utf8Encode\<rparr>) blob surrogatePasswordA iterations)
   \<and> encryptVault toyPlatform exampleSalt exampleIv examplePlaintext surrogatePasswordA
        = Inr (exampleBlob 2)
   \<and> decryptVault toyPlatform (exampleBlob 2) surrogatePasswordB PBKDF2_ITERATIONS
        = Inr examplePlaintext
   \<and> [0xD800] \<noteq> [0xDC00 :: 16 word]
   \<and> (\<forall>pf salt iv password.
         encryptVault (pf\<lparr>pf_textEncode := utf8Encode\<rparr>) salt iv [0xD800] password
           = encryptVault (pf\<lparr>pf_textEncode := utf8Encode\<rparr>) salt iv [0xDC00] password)"
proof -
  have ne: "surrogatePasswordA \<noteq> surrogatePasswordB" "[0xD800] \<noteq> [0xDC00 :: 16 word]"
    by (simp_all add: surrogatePasswordA_def surrogatePasswordB_def)
  have same: "utf8Encode surrogatePasswordB = utf8Encode surrogatePasswordA"
    by (simp add: vault_example_defs)
  have same1: "utf8Encode [0xD800] = utf8Encode [0xDC00]"
    by (simp add: vault_example_defs)
  have e: "encryptVault (pf\<lparr>pf_textEncode := utf8Encode\<rparr>) salt iv plaintext surrogatePasswordB
      = encryptVault (pf\<lparr>pf_textEncode := utf8Encode\<rparr>) salt iv plaintext surrogatePasswordA"
    for pf :: "'k platform" and salt iv plaintext
    by (rule encryptVault_same_encoding) (simp_all add: same del: utf8Encode.simps)
  have d: "decryptVault (pf\<lparr>pf_textEncode := utf8Encode\<rparr>) blob surrogatePasswordB iterations
      = decryptVault (pf\<lparr>pf_textEncode := utf8Encode\<rparr>) blob surrogatePasswordA iterations"
    for pf :: "'k platform" and blob iterations
    by (rule decryptVault_same_encoding) (simp add: same del: utf8Encode.simps)
  have p: "encryptVault (pf\<lparr>pf_textEncode := utf8Encode\<rparr>) salt iv [0xD800] password
      = encryptVault (pf\<lparr>pf_textEncode := utf8Encode\<rparr>) salt iv [0xDC00] password"
    for pf :: "'k platform" and salt iv password
    by (rule encryptVault_same_encoding) (simp_all add: same1 del: utf8Encode.simps)
  have t1: "encryptVault toyPlatform exampleSalt exampleIv examplePlaintext surrogatePasswordA
        = Inr (exampleBlob 2)"
    by (simp add: vault_example_defs)
  have t2: "decryptVault toyPlatform (exampleBlob 2) surrogatePasswordB PBKDF2_ITERATIONS
        = Inr examplePlaintext"
    by (simp add: vault_example_defs)
  from ne same e d t1 t2 p show ?thesis by blast
qed

section \<open>Properties of the unlock rate limiting\<close>

lemma lockoutMs_5: "lockoutMs 5 = 5000"
  by (simp add: lockoutMs_def BASE_LOCKOUT_MS_def MAX_LOCKOUT_MS_def MAX_ATTEMPTS_BEFORE_LOCKOUT_def)

lemma lockoutMs_cap: "lockoutMs n \<le> 3600000"
  by (simp add: lockoutMs_def MAX_LOCKOUT_MS_def)

lemma lockoutMs_Suc:
  "5 \<le> n \<Longrightarrow> lockoutMs (Suc n) = min (2 * (5000 * 2 ^ (n - 5))) 3600000"
proof -
  assume "5 \<le> n"
  then have "Suc n - 5 = Suc (n - 5)" by simp
  then show ?thesis
    by (simp add: lockoutMs_def BASE_LOCKOUT_MS_def MAX_LOCKOUT_MS_def
        MAX_ATTEMPTS_BEFORE_LOCKOUT_def)
qed

lemma lockoutMs_small:
  assumes "5 \<le> n" "n \<le> 14"
  shows "lockoutMs n = 5000 * 2 ^ (n - 5)"
proof -
  have "(2::int) ^ (n - 5) \<le> 2 ^ 9"
    using assms by (intro power_increasing) simp_all
  then have "5000 * (2::int) ^ (n - 5) \<le> 3600000" by simp
  then show ?thesis
    by (simp add: lockoutMs_def BASE_LOCKOUT_MS_def MAX_LOCKOUT_MS_def
        MAX_ATTEMPTS_BEFORE_LOCKOUT_def)
qed

lemma lockoutMs_doubles:
  assumes "5 \<le> n" "n < 14"
  shows "lockoutMs (Suc n) = 2 * lockoutMs n"
proof -
  have "lockoutMs (Suc n) = 5000 * 2 ^ (Suc n - 5)"
    using assms by (intro lockoutMs_small) simp_all
  moreover have "lockoutMs n = 5000 * 2 ^ (n - 5)"
    using assms by (intro lockoutMs_small) simp_all
  moreover have "Suc n - 5 = Suc (n - 5)" using assms by simp
  ultimately show ?thesis by simp
qed

lemma lockoutMs_large:
  assumes "15 \<le> n"
  shows "lockoutMs n = 3600000"
proof -
  have "(2::int) ^ 10 \<le> 2 ^ (n - 5)"
    using assms by (intro power_increasing) simp_all
  then have "3600000 \<le> 5000 * (2::int) ^ (n - 5)" by simp
  then show ?thesis
    by (simp add: lockoutMs_def BASE_LOCKOUT_MS_def MAX_LOCKOUT_MS_def
        MAX_ATTEMPTS_BEFORE_LOCKOUT_def)
qed

lemma UNLOCK_WALLET_throws:
  assumes "checkUnlockRateLimit w now = None" "w_vault w = Some blob"
    and "unlockThrows ops blob password"
  shows "UNLOCK_WALLET ops w now later password
      = (w\<lparr>w_unlockAttempts := Some \<lparr>att_count = Suc (failureCount w), att_lastFailedAt = later\<rparr>\<rparr>,
         Fail IncorrectPassword)"
  using assms
  by (auto simp: UNLOCK_WALLET_def unlockThrows_def failureCount_def
      recordFailedUnlock_def split: option.splits)

lemma checkUnlockRateLimit_below:
  "failureCount w < 5 \<Longrightarrow> checkUnlockRateLimit w now = None"
  by (auto simp: checkUnlockRateLimit_def failureCount_def MAX_ATTEMPTS_BEFORE_LOCKOUT_def
      split: option.splits)

lemma checkUnlockRateLimit_elapsed:
  assumes "w_unlockAttempts w = Some a" "lockoutMs (att_count a) \<le> now - att_lastFailedAt a"
  shows "checkUnlockRateLimit w now = None"
  using assms by (simp add: checkUnlockRateLimit_def Let_def)

lemma UNLOCK_WALLET_fails:
  assumes "w_vault w = Some blob" "unlockThrows ops blob password" "failureCount w < 5"
  shows "UNLOCK_WALLET ops w now later password
      = (w\<lparr>w_unlockAttempts := Some \<lparr>att_count = Suc (failureCount w), att_lastFailedAt = later\<rparr>\<rparr>,
         Fail IncorrectPassword)"
  by (rule UNLOCK_WALLET_throws[OF checkUnlockRateLimit_below[OF assms(3)] assms(1,2)])

lemma UNLOCK_WALLET_fails_after_lockout:
  assumes "w_unlockAttempts w = Some a" "lockoutMs (att_count a) \<le> now - att_lastFailedAt a"
    and "w_vault w = Some blob" "unlockThrows ops blob password"
  shows "UNLOCK_WALLET ops w now later password
      = (w\<lparr>w_unlockAttempts := Some \<lparr>att_count = Suc (att_count a), att_lastFailedAt = later\<rparr>\<rparr>,
         Fail IncorrectPassword)"
  using UNLOCK_WALLET_throws[OF checkUnlockRateLimit_elapsed[OF assms(1,2)] assms(3,4), of later]
    assms(1)
  by (simp add: failureCount_def)

lemma unlockAttempts_all_fail:
  assumes "w_vault w = Some blob"
    and "\<forall>ev \<in> set evs. unlockThrows ops blob (snd (snd ev))"
    and "failureCount w + length evs \<le> 5"
    and "unlockAttempts ops w evs = (w', rs)"
  shows "rs = replicate (length evs) (Fail IncorrectPassword)
       \<and> failureCount w' = failureCount w + length evs
       \<and> w_vault w' = Some blob
       \<and> (evs \<noteq> [] \<longrightarrow> w_unlockAttempts w'
              = Some \<lparr>att_count = failureCount w + length evs,
                      att_lastFailedAt = fst (snd (last evs))\<rparr>)"
  using assms
proof (induction evs arbitrary: w w' rs)
  case Nil
  then show ?case by simp
next
  case (Cons ev evs)
  obtain now later password where ev: "ev = (now, later, password)" by (cases ev)
  let ?w1 = "w\<lparr>w_unlockAttempts := Some \<lparr>att_count = Suc (failureCount w), att_lastFailedAt = later\<rparr>\<rparr>"
  have lt: "failureCount w < 5" using Cons.prems(3) by simp
  have thr: "unlockThrows ops blob password" using Cons.prems(2) ev by simp
  have step: "UNLOCK_WALLET ops w now later password = (?w1, Fail IncorrectPassword)"
    by (rule UNLOCK_WALLET_fails[OF Cons.prems(1) thr lt])
  obtain w2 rs2 where rest: "unlockAttempts ops ?w1 evs = (w2, rs2)"
    by (cases "unlockAttempts ops ?w1 evs")
  have fc1: "failureCount ?w1 = Suc (failureCount w)" by (simp add: failureCount_def)
  have v1: "w_vault ?w1 = Some blob" using Cons.prems(1) by simp
  have all: "\<forall>ev \<in> set evs. unlockThrows ops blob (snd (snd ev))" using Cons.prems(2) by simp
  have bound: "failureCount ?w1 + length evs \<le> 5" using Cons.prems(3) fc1 by simp
  from Cons.IH[OF v1 all bound rest] have ih:
    "rs2 = replicate (length evs) (Fail IncorrectPassword)"
    "failureCount w2 = failureCount ?w1 + length evs"
    "w_vault w2 = Some blob"
    "evs \<noteq> [] \<longrightarrow> w_unlockAttempts w2
        = Some \<lparr>att_count = failureCount ?w1 + length evs, att_lastFailedAt = fst (snd (last evs))\<rparr>"
    by simp_all
  from Cons.prems(4) ev step rest have eq: "w' = w2" "rs = Fail IncorrectPassword # rs2"
    by simp_all
  show ?case
  proof (cases "evs = []")
    case True
    with rest have "w2 = ?w1" by simp
    with eq ih True ev fc1 show ?thesis by simp
  next
    case False
    with eq ih ev fc1 show ?thesis by simp
  qed
qed

lemma UNLOCK_WALLET_completes:
  assumes "checkUnlockRateLimit w now = None" "w_vault w = Some blob"
    and "unlockResult ops blob password = Some (session, address)"
  shows "UNLOCK_WALLET ops w now later password
      = (resetUnlockAttempts (w\<lparr>w_session := Some session\<rparr>), Ok address)"
  using assms
  by (auto simp: UNLOCK_WALLET_def unlockResult_def Let_def split: option.splits)

lemma GET_MNEMONIC_completes:
  assumes "checkUnlockRateLimit w now = None" "w_vault w = Some blob"
    and "mnemonicResult ops blob password = Some mnemonic"
  shows "GET_MNEMONIC ops w now later password = (resetUnlockAttempts w, Ok mnemonic)"
  using assms
  by (auto simp: GET_MNEMONIC_def mnemonicResult_def Let_def split: option.splits)

lemma failureCount_reset: "failureCount (resetUnlockAttempts w) = 0"
  by (simp add: failureCount_def resetUnlockAttempts_def)

lemma UNLOCK_WALLET_Ok_resets:
  "UNLOCK_WALLET ops w now later password = (w', Ok a) \<Longrightarrow> failureCount w' = 0"
  by (auto simp: UNLOCK_WALLET_def resetUnlockAttempts_def failureCount_def Let_def
      split: option.splits)

lemma GET_MNEMONIC_Ok_resets:
  "GET_MNEMONIC ops w now later password = (w', Ok a) \<Longrightarrow> failureCount w' = 0"
  by (auto simp: GET_MNEMONIC_def resetUnlockAttempts_def failureCount_def Let_def
      split: option.splits)

lemma locked_out:
  assumes "w_unlockAttempts w = Some a" "5 \<le> att_count a"
    and "now - att_lastFailedAt a < lockoutMs (att_count a)"
  shows "UNLOCK_WALLET ops w now later password
      = (w, Fail (TooManyAttempts (- ((- (lockoutMs (att_count a) - (now - att_lastFailedAt a))) div 1000))))"
  using assms
  by (simp add: UNLOCK_WALLET_def checkUnlockRateLimit_def MAX_ATTEMPTS_BEFORE_LOCKOUT_def Let_def)

text \<open>
  C8, as amended. From a failure count of 0, five consecutive unlock attempts whose
  \<open>try\<close> block throws are all answered "Incorrect password" and leave the stored count
  at 5; any unlock attempt made less than 5000 ms after the last recorded failure is then
  rejected with the lockout message, whatever its password. At any stored count of 5 or
  more, an attempt made before the lockout of that count has elapsed is rejected and
  changes nothing, and an attempt made after it whose \<open>try\<close> block throws raises the
  stored count by one and stores the time of the failure: the lockout of the next count
  applies from then on. The lockout is 5000 ms at count 5, doubles with each further
  count (exactly so up to count 14) and is capped at 3600000 ms (reached from count 15
  on). An UNLOCK_WALLET call that passes the rate limit and whose \<open>try\<close> block runs to
  its \<open>return\<close> answers with the address and leaves the failure count at 0, and so does a
  GET_MNEMONIC call with the mnemonic; no call that leaves another count answers \<open>Ok\<close>.
\<close>

theorem unlock_rate_limit:
  assumes "failureCount w = 0"
    and "w_vault w = Some blob"
    and "length evs = 5"
    and "\<forall>ev \<in> set evs. unlockThrows ops blob (snd (snd ev))"
    and "unlockAttempts ops w evs = (w5, rs)"
  shows "rs = replicate 5 (Fail IncorrectPassword)
       \<and> failureCount w5 = 5
       \<and> (\<forall>now later password. now - fst (snd (last evs)) < 5000 \<longrightarrow>
             (\<exists>sec. UNLOCK_WALLET ops w5 now later password = (w5, Fail (TooManyAttempts sec))))
       \<and> (\<forall>w0 a now later password.
             w_unlockAttempts w0 = Some a \<and> 5 \<le> att_count a
             \<and> now - att_lastFailedAt a < lockoutMs (att_count a) \<longrightarrow>
             (\<exists>sec. UNLOCK_WALLET ops w0 now later password = (w0, Fail (TooManyAttempts sec))))
       \<and> (\<forall>w0 a vault now later password.
             w_unlockAttempts w0 = Some a \<and> 5 \<le> att_count a
             \<and> lockoutMs (att_count a) \<le> now - att_lastFailedAt a
             \<and> w_vault w0 = Some vault \<and> unlockThrows ops vault password \<longrightarrow>
             UNLOCK_WALLET ops w0 now later password
               = (w0\<lparr>w_unlockAttempts :=
                       Some \<lparr>att_count = Suc (att_count a), att_lastFailedAt = later\<rparr>\<rparr>,
                  Fail IncorrectPassword))
       \<and> lockoutMs 5 = 5000
       \<and> (\<forall>n. 5 \<le> n \<longrightarrow> lockoutMs (Suc n) = min (2 * (5000 * 2 ^ (n - 5))) 3600000)
       \<and> (\<forall>n. 5 \<le> n \<and> n < 14 \<longrightarrow> lockoutMs (Suc n) = 2 * lockoutMs n)
       \<and> (\<forall>n. lockoutMs n \<le> 3600000)
       \<and> (\<forall>n. 15 \<le> n \<longrightarrow> lockoutMs n = 3600000)
       \<and> (\<forall>w0 vault now later password session address.
             checkUnlockRateLimit w0 now = None \<and> w_vault w0 = Some vault
             \<and> unlockResult ops vault password = Some (session, address) \<longrightarrow>
             UNLOCK_WALLET ops w0 now later password
               = (resetUnlockAttempts (w0\<lparr>w_session := Some session\<rparr>), Ok address)
             \<and> failureCount (resetUnlockAttempts (w0\<lparr>w_session := Some session\<rparr>)) = 0)
       \<and> (\<forall>w0 vault now later password mnemonic.
             checkUnlockRateLimit w0 now = None \<and> w_vault w0 = Some vault
             \<and> mnemonicResult ops vault password = Some mnemonic \<longrightarrow>
             GET_MNEMONIC ops w0 now later password = (resetUnlockAttempts w0, Ok mnemonic)
             \<and> failureCount (resetUnlockAttempts w0) = 0)
       \<and> (\<forall>w0 now later password w' a.
             UNLOCK_WALLET ops w0 now later password = (w', Ok a) \<longrightarrow> failureCount w' = 0)
       \<and> (\<forall>w0 now later password w' a.
             GET_MNEMONIC ops w0 now later password = (w', Ok a) \<longrightarrow> failureCount w' = 0)"
proof -
  have ne: "evs \<noteq> []" using assms(3) by auto
  have bound: "failureCount w + length evs \<le> 5" using assms(1,3) by simp
  from unlockAttempts_all_fail[OF assms(2) assms(4) bound assms(5)] ne assms(1,3)
  have run: "rs = replicate 5 (Fail IncorrectPassword)" "failureCount w5 = 5"
    "w_unlockAttempts w5 = Some \<lparr>att_count = 5, att_lastFailedAt = fst (snd (last evs))\<rparr>"
    by simp_all
  have lock: "\<forall>now later password. now - fst (snd (last evs)) < 5000 \<longrightarrow>
             (\<exists>sec. UNLOCK_WALLET ops w5 now later password = (w5, Fail (TooManyAttempts sec)))"
  proof (intro allI impI)
    fix now later password
    assume "now - fst (snd (last evs)) < 5000"
    then show "\<exists>sec. UNLOCK_WALLET ops w5 now later password = (w5, Fail (TooManyAttempts sec))"
      using locked_out[OF run(3), of now ops later password] by (simp add: lockoutMs_5)
  qed
  have rejected: "\<forall>w0 a now later password.
             w_unlockAttempts w0 = Some a \<and> 5 \<le> att_count a
             \<and> now - att_lastFailedAt a < lockoutMs (att_count a) \<longrightarrow>
             (\<exists>sec. UNLOCK_WALLET ops w0 now later password = (w0, Fail (TooManyAttempts sec)))"
    using locked_out by blast
  have counted: "\<forall>w0 a vault now later password.
             w_unlockAttempts w0 = Some a \<and> 5 \<le> att_count a
             \<and> lockoutMs (att_count a) \<le> now - att_lastFailedAt a
             \<and> w_vault w0 = Some vault \<and> unlockThrows ops vault password \<longrightarrow>
             UNLOCK_WALLET ops w0 now later password
               = (w0\<lparr>w_unlockAttempts :=
                       Some \<lparr>att_count = Suc (att_count a), att_lastFailedAt = later\<rparr>\<rparr>,
                  Fail IncorrectPassword)"
    using UNLOCK_WALLET_fails_after_lockout by blast
  have dbl: "\<forall>n. 5 \<le> n \<longrightarrow> lockoutMs (Suc n) = min (2 * (5000 * 2 ^ (n - 5))) 3600000"
    using lockoutMs_Suc by blast
  have dbl2: "\<forall>n. 5 \<le> n \<and> n < 14 \<longrightarrow> lockoutMs (Suc n) = 2 * lockoutMs n"
    using lockoutMs_doubles by blast
  have cap: "\<forall>n. lockoutMs n \<le> 3600000"
    using lockoutMs_cap by blast
  have cap2: "\<forall>n. 15 \<le> n \<longrightarrow> lockoutMs n = 3600000"
    using lockoutMs_large by blast
  have u: "\<forall>w0 vault now later password session address.
             checkUnlockRateLimit w0 now = None \<and> w_vault w0 = Some vault
             \<and> unlockResult ops vault password = Some (session, address) \<longrightarrow>
             UNLOCK_WALLET ops w0 now later password
               = (resetUnlockAttempts (w0\<lparr>w_session := Some session\<rparr>), Ok address)
             \<and> failureCount (resetUnlockAttempts (w0\<lparr>w_session := Some session\<rparr>)) = 0"
    using UNLOCK_WALLET_completes failureCount_reset by blast
  have m: "\<forall>w0 vault now later password mnemonic.
             checkUnlockRateLimit w0 now = None \<and> w_vault w0 = Some vault
             \<and> mnemonicResult ops vault password = Some mnemonic \<longrightarrow>
             GET_MNEMONIC ops w0 now later password = (resetUnlockAttempts w0, Ok mnemonic)
             \<and> failureCount (resetUnlockAttempts w0) = 0"
    using GET_MNEMONIC_completes failureCount_reset by blast
  have r1: "\<forall>w0 now later password w' a.
             UNLOCK_WALLET ops w0 now later password = (w', Ok a) \<longrightarrow> failureCount w' = 0"
    using UNLOCK_WALLET_Ok_resets by blast
  have r2: "\<forall>w0 now later password w' a.
             GET_MNEMONIC ops w0 now later password = (w', Ok a) \<longrightarrow> failureCount w' = 0"
    using GET_MNEMONIC_Ok_resets by blast
  from run(1,2) lock rejected counted lockoutMs_5 dbl dbl2 cap cap2 u m r1 r2 show ?thesis
    by (intro conjI)
qed

text \<open>
  C8 on runs. Five wrong passwords lock the wallet; the right password is rejected 4999
  ms after the last failure (one second to wait); a sixth wrong password 5000 ms after it
  is answered "Incorrect password" and raises the stored count to 6, after which the
  right password is rejected for 10000 ms and then accepted, with the counter reset. A
  mnemonic reveal with the right password resets a count of 3.
\<close>

theorem unlock_rate_limit_witness:
  "unlockAttempts exampleVaultOps lockedWallet fiveBadAttempts
     = (lockedOutWallet, [Fail IncorrectPassword, Fail IncorrectPassword, Fail IncorrectPassword,
          Fail IncorrectPassword, Fail IncorrectPassword])
   \<and> failureCount lockedOutWallet = 5
   \<and> (\<exists>sec. UNLOCK_WALLET exampleVaultOps lockedOutWallet 10000 10001 goodPassword
          = (lockedOutWallet, Fail (TooManyAttempts sec)))
   \<and> UNLOCK_WALLET exampleVaultOps lockedOutWallet 10000 10001 goodPassword
          = (lockedOutWallet, Fail (TooManyAttempts 1))
   \<and> UNLOCK_WALLET exampleVaultOps lockedOutWallet 10001 10002 badPassword
          = (walletAfter 6 10002, Fail IncorrectPassword)
   \<and> failureCount (walletAfter 6 10002) = 6
   \<and> (\<exists>sec. UNLOCK_WALLET exampleVaultOps (walletAfter 6 10002) 20001 20002 goodPassword
          = (walletAfter 6 10002, Fail (TooManyAttempts sec)))
   \<and> UNLOCK_WALLET exampleVaultOps (walletAfter 6 10002) 20002 20003 goodPassword
          = (lockedWallet\<lparr>w_session := Some ([addrS], 0)\<rparr>, Ok addrS)
   \<and> failureCount (lockedWallet\<lparr>w_session := Some ([addrS], 0)\<rparr>) = 0
   \<and> GET_MNEMONIC exampleVaultOps (walletAfter 3 100) 200 201 goodPassword
          = (lockedWallet, Ok [0x76])
   \<and> failureCount (walletAfter 3 100) = 3 \<and> failureCount lockedWallet = 0
   \<and> lockoutMs 6 = 10000 \<and> lockoutMs 14 = 2560000 \<and> lockoutMs 15 = 3600000"
proof -
  have fc: "failureCount lockedWallet = 0"
    by code_simp
  have v: "w_vault lockedWallet = Some [0x76]"
    by code_simp
  have len: "length fiveBadAttempts = 5"
    by code_simp
  have bad: "\<forall>ev \<in> set fiveBadAttempts. unlockThrows exampleVaultOps [0x76] (snd (snd ev))"
    by code_simp
  have run: "unlockAttempts exampleVaultOps lockedWallet fiveBadAttempts
     = (lockedOutWallet, [Fail IncorrectPassword, Fail IncorrectPassword, Fail IncorrectPassword,
          Fail IncorrectPassword, Fail IncorrectPassword])"
    by code_simp
  have lastt: "fst (snd (last fiveBadAttempts)) = 5001"
    by code_simp
  have rej: "UNLOCK_WALLET exampleVaultOps lockedOutWallet 10000 10001 goodPassword
          = (lockedOutWallet, Fail (TooManyAttempts 1))"
    by code_simp
  have l14: "lockoutMs 14 = 2560000"
    by code_simp
  have at5: "w_unlockAttempts lockedOutWallet = Some \<lparr>att_count = 5, att_lastFailedAt = 5001\<rparr>"
    "w_vault lockedOutWallet = Some [0x76]"
    "lockedOutWallet\<lparr>w_unlockAttempts := Some \<lparr>att_count = Suc 5, att_lastFailedAt = 10002\<rparr>\<rparr>
       = walletAfter 6 10002"
    "unlockThrows exampleVaultOps [0x76] badPassword"
    by code_simp+
  have at6: "w_unlockAttempts (walletAfter 6 10002) = Some \<lparr>att_count = 6, att_lastFailedAt = 10002\<rparr>"
    "w_vault (walletAfter 6 10002) = Some [0x76]"
    "failureCount (walletAfter 6 10002) = 6"
    "checkUnlockRateLimit (walletAfter 6 10002) 20002 = None"
    "unlockResult exampleVaultOps [0x76] goodPassword = Some (([addrS], 0), addrS)"
    "resetUnlockAttempts (walletAfter 6 10002\<lparr>w_session := Some ([addrS], 0)\<rparr>)
       = lockedWallet\<lparr>w_session := Some ([addrS], 0)\<rparr>"
    by code_simp+
  have at3: "checkUnlockRateLimit (walletAfter 3 100) 200 = None"
    "w_vault (walletAfter 3 100) = Some [0x76]"
    "mnemonicResult exampleVaultOps [0x76] goodPassword = Some [0x76]"
    "resetUnlockAttempts (walletAfter 3 100) = lockedWallet"
    "failureCount (walletAfter 3 100) = 3"
    by code_simp+
  note inst = unlock_rate_limit[OF fc v len bad run]
  note i2 = inst[THEN conjunct2]
  note i3 = i2[THEN conjunct2]
  note i4 = i3[THEN conjunct2]
  note i5 = i4[THEN conjunct2]
  note i6 = i5[THEN conjunct2]
  note i7 = i6[THEN conjunct2]
  note i10 = i7[THEN conjunct2, THEN conjunct2, THEN conjunct2]
  note i11 = i10[THEN conjunct2]
  note i12 = i11[THEN conjunct2]
  have a: "failureCount lockedOutWallet = 5"
    by (rule i2[THEN conjunct1])
  from i3[THEN conjunct1] lastt
  have b: "\<exists>sec. UNLOCK_WALLET exampleVaultOps lockedOutWallet 10000 10001 goodPassword
          = (lockedOutWallet, Fail (TooManyAttempts sec))" by simp
  have l5: "lockoutMs 5 = 5000"
    by (rule i6[THEN conjunct1])
  from i7[THEN conjunct1] have d: "lockoutMs (Suc 5) = min (2 * (5000 * 2 ^ (5 - 5))) 3600000"
    by blast
  from d have d': "lockoutMs 6 = 10000" by (simp add: eval_nat_numeral)
  from i10[THEN conjunct1] have e: "lockoutMs 15 = 3600000" by simp
  from i5[THEN conjunct1, rule_format, of lockedOutWallet
      "\<lparr>att_count = 5, att_lastFailedAt = 5001\<rparr>" 10001 "[0x76]" badPassword 10002] at5 l5
  have six: "UNLOCK_WALLET exampleVaultOps lockedOutWallet 10001 10002 badPassword
          = (walletAfter 6 10002, Fail IncorrectPassword)"
    by simp
  from i4[THEN conjunct1, rule_format, of "walletAfter 6 10002"
      "\<lparr>att_count = 6, att_lastFailedAt = 10002\<rparr>" 20001 20002 goodPassword] at6(1) d'
  have rej6: "\<exists>sec. UNLOCK_WALLET exampleVaultOps (walletAfter 6 10002) 20001 20002 goodPassword
          = (walletAfter 6 10002, Fail (TooManyAttempts sec))"
    by simp
  from i11[THEN conjunct1, rule_format, of "walletAfter 6 10002" 20002 "[0x76]" goodPassword
      "([addrS], 0)" addrS 20003] at6
  have ok: "UNLOCK_WALLET exampleVaultOps (walletAfter 6 10002) 20002 20003 goodPassword
          = (lockedWallet\<lparr>w_session := Some ([addrS], 0)\<rparr>, Ok addrS)
     \<and> failureCount (lockedWallet\<lparr>w_session := Some ([addrS], 0)\<rparr>) = 0"
    by simp
  from i12[THEN conjunct1, rule_format, of "walletAfter 3 100" 200 "[0x76]" goodPassword "[0x76]"
      201] at3
  have mn: "GET_MNEMONIC exampleVaultOps (walletAfter 3 100) 200 201 goodPassword
          = (lockedWallet, Ok [0x76])"
    by simp
  from run a b rej six at6(3) rej6 ok mn at3(5) fc d' l14 e show ?thesis by simp
qed

text \<open>
  C8 as stated fails where it says that any successful vault decrypt resets the counter.
  With the right password the vault decrypts and parses; when the account derivation then
  throws, UNLOCK_WALLET records a failure and raises a count of 3 to 4; when the
  rebuilding of the mnemonic throws, GET_MNEMONIC, which has reset the counter, records a
  failure and leaves the count at 1.
\<close>

theorem unlock_decrypt_then_throw_counterexample:
  "v_decryptVault incompleteVaultOps [0x76] goodPassword = Some [0x76]
   \<and> v_parse incompleteVaultOps [0x76] = Some [0x76]
   \<and> w_vault (walletAfter 3 100) = Some [0x76]
   \<and> failureCount (walletAfter 3 100) = 3
   \<and> UNLOCK_WALLET incompleteVaultOps (walletAfter 3 100) 200 201 goodPassword
        = (walletAfter 4 201, Fail IncorrectPassword)
   \<and> failureCount (walletAfter 4 201) = 4
   \<and> GET_MNEMONIC incompleteVaultOps (walletAfter 3 100) 200 201 goodPassword
        = (walletAfter 1 201, Fail IncorrectPassword)
   \<and> failureCount (walletAfter 1 201) = 1"
proof -
  have a: "v_decryptVault incompleteVaultOps [0x76] goodPassword = Some [0x76]"
    "v_parse incompleteVaultOps [0x76] = Some [0x76]"
    "w_vault (walletAfter 3 100) = Some [0x76]"
    "failureCount (walletAfter 3 100) = 3"
    by code_simp+
  have b: "UNLOCK_WALLET incompleteVaultOps (walletAfter 3 100) 200 201 goodPassword
        = (walletAfter 4 201, Fail IncorrectPassword)"
    "failureCount (walletAfter 4 201) = 4"
    by code_simp+
  have c: "GET_MNEMONIC incompleteVaultOps (walletAfter 3 100) 200 201 goodPassword
        = (walletAfter 1 201, Fail IncorrectPassword)"
    "failureCount (walletAfter 1 201) = 1"
    by code_simp+
  from a b c show ?thesis by simp
qed

section \<open>Properties of the approval of pending requests\<close>

lemma waiting_loser: "waiting p \<Longrightarrow> loser f p"
  by (cases p) simp_all

lemma approveClaim_present:
  assumes "entryOf msg regs = Some c" "approvable c" "now - createdOf c \<le> PENDING_LOGIN_TTL_MS"
  shows "\<exists>regs'. approveClaim regs now True msg = (regs', Inr c) \<and> entryOf msg regs' = None"
  using assms
  by (cases msg)
     (auto simp: approveClaim_def entryOf_def approvable_def createdOf_def Let_def
        purgeExpiredRequests_def purgeMap_def split: option.splits)

lemma approveClaim_absent:
  assumes "entryOf msg regs = None"
  shows "\<exists>regs'. approveClaim regs now True msg = (regs', Inl (notFoundOf msg))
           \<and> entryOf msg regs' = None"
  using assms
  by (cases msg)
     (auto simp: approveClaim_def entryOf_def notFoundOf_def Let_def
        purgeExpiredRequests_def purgeMap_def split: option.splits)

lemma approveClaim_refused:
  assumes "entryOf msg regs = Some c" "\<not> approvable c"
    and "now - createdOf c \<le> PENDING_LOGIN_TTL_MS"
  shows "\<exists>regs'. approveClaim regs now True msg = (regs', Inl SignatureNotVerified)
           \<and> entryOf msg regs' = Some c"
  using assms
  by (cases msg)
     (auto simp: approveClaim_def entryOf_def approvable_def createdOf_def Let_def
        purgeExpiredRequests_def purgeMap_def split: option.splits)

lemma raceInv_sym: "raceInv work msg c regs p q = raceInv work msg c regs q p"
  by (auto simp: raceInv_def)

lemma refusedInv_sym: "refusedInv msg c regs p q = refusedInv msg c regs q p"
  by (auto simp: refusedInv_def)

lemma stepCall_raceInv:
  assumes "raceInv work msg c regs p q" "approvable c"
    and "now - createdOf c \<le> PENDING_LOGIN_TTL_MS"
    and "stepCall work now unlocked True msg (regs, p) = (regs', p')"
  shows "raceInv work msg c regs' p' q"
proof (cases p)
  case Received
  with assms(1,4) show ?thesis by (auto simp: stepCall_def raceInv_def)
next
  case AtEntry
  show ?thesis
  proof (cases "entryOf msg regs")
    case None
    from approveClaim_absent[OF None, of now] obtain r1 where
      "approveClaim regs now True msg = (r1, Inl (notFoundOf msg))" "entryOf msg r1 = None"
      by blast
    with assms(1,4) AtEntry None show ?thesis by (auto simp: stepCall_def raceInv_def)
  next
    case (Some c')
    with assms(1) AtEntry have cc: "c' = c" by (auto simp: raceInv_def)
    from approveClaim_present[OF Some[unfolded cc] assms(2,3)] obtain r1 where
      "approveClaim regs now True msg = (r1, Inr c)" "entryOf msg r1 = None"
      by blast
    with assms(1,4) AtEntry Some cc show ?thesis
      by (auto simp: stepCall_def raceInv_def intro: waiting_loser)
  qed
next
  case (Holding x)
  with assms(1,4) have "regs' = regs"
    "p' = Working x \<or> p' = Done (Some x) (Fail WalletLocked)"
    by (auto simp: stepCall_def split: if_splits)
  with assms(1) Holding show ?thesis by (auto simp: raceInv_def)
next
  case (Working x)
  with assms(1,4) have "regs' = regs" "p' = Done (Some x) (work x)"
    by (auto simp: stepCall_def)
  with assms(1) Working show ?thesis by (auto simp: raceInv_def)
next
  case (Done x r)
  with assms(1,4) have "regs' = regs" "p' = Done x r" by (auto simp: stepCall_def)
  with assms(1) Done show ?thesis by simp
qed

lemma stepCall_refusedInv:
  assumes "refusedInv msg c regs p q" "\<not> approvable c"
    and "now - createdOf c \<le> PENDING_LOGIN_TTL_MS"
    and "stepCall work now unlocked True msg (regs, p) = (regs', p')"
  shows "refusedInv msg c regs' p' q"
proof (cases p)
  case Received
  with assms(1,4) show ?thesis by (auto simp: stepCall_def refusedInv_def)
next
  case AtEntry
  from assms(1) have e: "entryOf msg regs = Some c" by (simp add: refusedInv_def)
  from approveClaim_refused[OF e assms(2,3)] obtain r1 where
    "approveClaim regs now True msg = (r1, Inl SignatureNotVerified)" "entryOf msg r1 = Some c"
    by blast
  with assms(1,4) AtEntry show ?thesis by (auto simp: stepCall_def refusedInv_def)
next
  case (Holding x)
  with assms(1) show ?thesis by (simp add: refusedInv_def)
next
  case (Working x)
  with assms(1) show ?thesis by (simp add: refusedInv_def)
next
  case (Done x r)
  with assms(1,4) have "regs' = regs" "p' = Done x r" by (auto simp: stepCall_def)
  with assms(1) Done show ?thesis by simp
qed

lemma interleave_raceInv:
  assumes "raceInv work msg c (c_regs cs) (c_first cs) (c_second cs)" "approvable c"
    and "\<forall>ev \<in> set sched. fst (snd ev) - createdOf c \<le> PENDING_LOGIN_TTL_MS"
    and "final = interleave work (True, msg) (True, msg) sched cs"
  shows "raceInv work msg c (c_regs final) (c_first final) (c_second final)"
  using assms
proof (induction sched arbitrary: cs)
  case Nil
  then show ?case by simp
next
  case (Cons ev sched)
  obtain who now unlocked where ev: "ev = (who, now, unlocked)" by (cases ev)
  have t: "now - createdOf c \<le> PENDING_LOGIN_TTL_MS" using Cons.prems(3) ev by simp
  have rest: "\<forall>ev \<in> set sched. fst (snd ev) - createdOf c \<le> PENDING_LOGIN_TTL_MS"
    using Cons.prems(3) by simp
  show ?case
  proof (cases who)
    case True
    obtain regs' ph' where
      st: "stepCall work now unlocked True msg (c_regs cs, c_first cs) = (regs', ph')"
      by (cases "stepCall work now unlocked True msg (c_regs cs, c_first cs)")
    from stepCall_raceInv[OF Cons.prems(1,2) t st]
    have "raceInv work msg c (c_regs (cs\<lparr>c_regs := regs', c_first := ph'\<rparr>))
        (c_first (cs\<lparr>c_regs := regs', c_first := ph'\<rparr>))
        (c_second (cs\<lparr>c_regs := regs', c_first := ph'\<rparr>))" by simp
    from Cons.IH[OF this Cons.prems(2) rest] Cons.prems(4) ev True st show ?thesis by simp
  next
    case False
    obtain regs' ph' where
      st: "stepCall work now unlocked True msg (c_regs cs, c_second cs) = (regs', ph')"
      by (cases "stepCall work now unlocked True msg (c_regs cs, c_second cs)")
    from Cons.prems(1) have "raceInv work msg c (c_regs cs) (c_second cs) (c_first cs)"
      by (simp add: raceInv_sym)
    from stepCall_raceInv[OF this Cons.prems(2) t st]
    have "raceInv work msg c regs' (c_first cs) ph'" by (simp add: raceInv_sym)
    then have "raceInv work msg c (c_regs (cs\<lparr>c_regs := regs', c_second := ph'\<rparr>))
        (c_first (cs\<lparr>c_regs := regs', c_second := ph'\<rparr>))
        (c_second (cs\<lparr>c_regs := regs', c_second := ph'\<rparr>))" by simp
    from Cons.IH[OF this Cons.prems(2) rest] Cons.prems(4) ev False st show ?thesis by simp
  qed
qed

lemma interleave_refusedInv:
  assumes "refusedInv msg c (c_regs cs) (c_first cs) (c_second cs)" "\<not> approvable c"
    and "\<forall>ev \<in> set sched. fst (snd ev) - createdOf c \<le> PENDING_LOGIN_TTL_MS"
    and "final = interleave work (True, msg) (True, msg) sched cs"
  shows "refusedInv msg c (c_regs final) (c_first final) (c_second final)"
  using assms
proof (induction sched arbitrary: cs)
  case Nil
  then show ?case by simp
next
  case (Cons ev sched)
  obtain who now unlocked where ev: "ev = (who, now, unlocked)" by (cases ev)
  have t: "now - createdOf c \<le> PENDING_LOGIN_TTL_MS" using Cons.prems(3) ev by simp
  have rest: "\<forall>ev \<in> set sched. fst (snd ev) - createdOf c \<le> PENDING_LOGIN_TTL_MS"
    using Cons.prems(3) by simp
  show ?case
  proof (cases who)
    case True
    obtain regs' ph' where
      st: "stepCall work now unlocked True msg (c_regs cs, c_first cs) = (regs', ph')"
      by (cases "stepCall work now unlocked True msg (c_regs cs, c_first cs)")
    from stepCall_refusedInv[OF Cons.prems(1,2) t st]
    have "refusedInv msg c (c_regs (cs\<lparr>c_regs := regs', c_first := ph'\<rparr>))
        (c_first (cs\<lparr>c_regs := regs', c_first := ph'\<rparr>))
        (c_second (cs\<lparr>c_regs := regs', c_first := ph'\<rparr>))" by simp
    from Cons.IH[OF this Cons.prems(2) rest] Cons.prems(4) ev True st show ?thesis by simp
  next
    case False
    obtain regs' ph' where
      st: "stepCall work now unlocked True msg (c_regs cs, c_second cs) = (regs', ph')"
      by (cases "stepCall work now unlocked True msg (c_regs cs, c_second cs)")
    from Cons.prems(1) have "refusedInv msg c (c_regs cs) (c_second cs) (c_first cs)"
      by (simp add: refusedInv_sym)
    from stepCall_refusedInv[OF this Cons.prems(2) t st]
    have "refusedInv msg c regs' (c_first cs) ph'" by (simp add: refusedInv_sym)
    then have "refusedInv msg c (c_regs (cs\<lparr>c_regs := regs', c_second := ph'\<rparr>))
        (c_first (cs\<lparr>c_regs := regs', c_second := ph'\<rparr>))
        (c_second (cs\<lparr>c_regs := regs', c_second := ph'\<rparr>))" by simp
    from Cons.IH[OF this Cons.prems(2) rest] Cons.prems(4) ev False st show ?thesis by simp
  qed
qed

lemma race_outcome:
  assumes "raceInv work msg c regs p q"
  shows "(isHolding p \<or> isHolding q \<longrightarrow> entryOf msg regs = None)
       \<and> (isDone p \<and> isDone q \<longrightarrow>
            oneClaimOneNotFound work c (notFoundOf msg) p q
            \<and> entryOf msg regs = None
            \<and> \<not> (succeeded p \<and> succeeded q))"
proof -
  have hold: "isHolding x \<Longrightarrow> \<not> waiting x \<and> \<not> loser f x" for x f
    by (cases x) (simp_all add: isHolding_def)
  have done1: "isDone x \<Longrightarrow> winner work c x \<Longrightarrow>
      x = Done (Some c) (work c) \<or> x = Done (Some c) (Fail WalletLocked)" for x
    by (cases "(work, c, x)" rule: winner.cases) (auto simp: isDone_def)
  have done2: "isDone x \<Longrightarrow> loser f x \<Longrightarrow> x = Done None (Fail f)" for x f
    by (cases "(f, x)" rule: loser.cases) (simp_all add: isDone_def)
  have done3: "isDone x \<Longrightarrow> \<not> waiting x" for x
    by (cases x) (simp_all add: isDone_def)
  have fails: "x = Done None (Fail f) \<Longrightarrow> \<not> succeeded x" for x f
    by (simp add: succeeded_def)
  show ?thesis
    using assms hold done1 done2 done3 fails
    unfolding raceInv_def oneClaimOneNotFound_def
    by blast
qed

lemma refused_outcome:
  assumes "refusedInv msg c regs p q"
  shows "entryOf msg regs = Some c
       \<and> (isDone p \<longrightarrow> p = Done None (Fail SignatureNotVerified))
       \<and> (isDone q \<longrightarrow> q = Done None (Fail SignatureNotVerified))"
proof -
  have done2: "isDone x \<Longrightarrow> loser f x \<Longrightarrow> x = Done None (Fail f)" for x f
    by (cases "(f, x)" rule: loser.cases) (simp_all add: isDone_def)
  show ?thesis
    using assms done2 unfolding refusedInv_def by blast
qed

text \<open>
  C7, as amended. Two approval calls from the popup for the same request identifier are
  interleaved in any order, at any clock readings at which the entry, present at the
  start, has not expired. When the entry can be approved (a send, or a login whose
  signature is verified): the entry is gone from the registry whenever a call holds it,
  and once both calls have returned exactly one of them has claimed the entry, with the
  answer of its \<open>try\<close> block or, if it found no session, "Wallet is locked", and the other
  has failed with the not-found error; so the two calls never both succeed. When the
  entry is a login whose signature is not verified, it stays in the registry and each
  call that has returned was refused for that reason.
\<close>

theorem approval_claimed_once:
  assumes "entryOf msg regs = Some c"
    and "\<forall>ev \<in> set sched. fst (snd ev) - createdOf c \<le> PENDING_LOGIN_TTL_MS"
    and "final = interleave work (True, msg) (True, msg) sched (startCalls regs)"
  shows "(approvable c \<longrightarrow>
            (isHolding (c_first final) \<or> isHolding (c_second final)
               \<longrightarrow> entryOf msg (c_regs final) = None)
          \<and> (isDone (c_first final) \<and> isDone (c_second final)
               \<longrightarrow> oneClaimOneNotFound work c (notFoundOf msg) (c_first final) (c_second final)
                   \<and> entryOf msg (c_regs final) = None
                   \<and> \<not> (succeeded (c_first final) \<and> succeeded (c_second final))))
       \<and> (\<not> approvable c \<longrightarrow>
            entryOf msg (c_regs final) = Some c
          \<and> (isDone (c_first final) \<longrightarrow> c_first final = Done None (Fail SignatureNotVerified))
          \<and> (isDone (c_second final) \<longrightarrow> c_second final = Done None (Fail SignatureNotVerified)))"
proof (rule conjI; rule impI)
  assume ap: "approvable c"
  have "raceInv work msg c (c_regs (startCalls regs)) (c_first (startCalls regs))
      (c_second (startCalls regs))"
    using assms(1) by (simp add: raceInv_def startCalls_def)
  from interleave_raceInv[OF this ap assms(2,3)]
  have inv: "raceInv work msg c (c_regs final) (c_first final) (c_second final)" .
  note out = race_outcome[OF inv]
  show "(isHolding (c_first final) \<or> isHolding (c_second final)
               \<longrightarrow> entryOf msg (c_regs final) = None)
          \<and> (isDone (c_first final) \<and> isDone (c_second final)
               \<longrightarrow> oneClaimOneNotFound work c (notFoundOf msg) (c_first final) (c_second final)
                   \<and> entryOf msg (c_regs final) = None
                   \<and> \<not> (succeeded (c_first final) \<and> succeeded (c_second final)))"
    by (rule out)
next
  assume nap: "\<not> approvable c"
  have "refusedInv msg c (c_regs (startCalls regs)) (c_first (startCalls regs))
      (c_second (startCalls regs))"
    using assms(1) by (simp add: refusedInv_def startCalls_def)
  from interleave_refusedInv[OF this nap assms(2,3)]
  have inv: "refusedInv msg c (c_regs final) (c_first final) (c_second final)" .
  note out = refused_outcome[OF inv]
  show "entryOf msg (c_regs final) = Some c
          \<and> (isDone (c_first final) \<longrightarrow> c_first final = Done None (Fail SignatureNotVerified))
          \<and> (isDone (c_second final) \<longrightarrow> c_second final = Done None (Fail SignatureNotVerified))"
    by (rule out)
qed

text \<open>
  C7 on runs with the wallet unlocked. For a verified login and for a send, the second
  call claims the entry and succeeds, the first one finds none. For a login whose
  signature is not verified, both calls are refused and the entry stays.
\<close>

theorem approval_claimed_once_witness:
  "isDone (c_first (raceOutcome scheduleUnlocked verifiedLogin (DAPP_APPROVE requestId1)))
   \<and> isDone (c_second (raceOutcome scheduleUnlocked verifiedLogin (DAPP_APPROVE requestId1)))
   \<and> oneClaimOneNotFound workOk (ClaimedLogin verifiedLogin) NoPendingLogin
        (c_first (raceOutcome scheduleUnlocked verifiedLogin (DAPP_APPROVE requestId1)))
        (c_second (raceOutcome scheduleUnlocked verifiedLogin (DAPP_APPROVE requestId1)))
   \<and> c_first (raceOutcome scheduleUnlocked verifiedLogin (DAPP_APPROVE requestId1))
        = Done None (Fail NoPendingLogin)
   \<and> c_second (raceOutcome scheduleUnlocked verifiedLogin (DAPP_APPROVE requestId1))
        = Done (Some (ClaimedLogin verifiedLogin)) (Ok [])
   \<and> pendingLogins (c_regs (raceOutcome scheduleUnlocked verifiedLogin (DAPP_APPROVE requestId1)))
        requestId1 = None
   \<and> oneClaimOneNotFound workOk (ClaimedSend someSend) NoPendingSend
        (c_first (raceOutcome scheduleUnlocked verifiedLogin (DAPP_APPROVE_SEND requestId1)))
        (c_second (raceOutcome scheduleUnlocked verifiedLogin (DAPP_APPROVE_SEND requestId1)))
   \<and> pendingSends (c_regs (raceOutcome scheduleUnlocked verifiedLogin (DAPP_APPROVE_SEND requestId1)))
        requestId1 = None
   \<and> c_first (raceOutcome scheduleUnlocked unverifiedLogin (DAPP_APPROVE requestId1))
        = Done None (Fail SignatureNotVerified)
   \<and> c_second (raceOutcome scheduleUnlocked unverifiedLogin (DAPP_APPROVE requestId1))
        = Done None (Fail SignatureNotVerified)
   \<and> pendingLogins (c_regs (raceOutcome scheduleUnlocked unverifiedLogin (DAPP_APPROVE requestId1)))
        requestId1 = Some unverifiedLogin"
proof -
  let ?L = "raceOutcome scheduleUnlocked verifiedLogin (DAPP_APPROVE requestId1)"
  let ?S = "raceOutcome scheduleUnlocked verifiedLogin (DAPP_APPROVE_SEND requestId1)"
  let ?U = "raceOutcome scheduleUnlocked unverifiedLogin (DAPP_APPROVE requestId1)"
  have e1: "entryOf (DAPP_APPROVE requestId1) (registriesWith verifiedLogin)
      = Some (ClaimedLogin verifiedLogin)"
    by (simp add: entryOf_def registriesWith_def)
  have e2: "entryOf (DAPP_APPROVE_SEND requestId1) (registriesWith verifiedLogin)
      = Some (ClaimedSend someSend)"
    by (simp add: entryOf_def registriesWith_def)
  have e3: "entryOf (DAPP_APPROVE requestId1) (registriesWith unverifiedLogin)
      = Some (ClaimedLogin unverifiedLogin)"
    by (simp add: entryOf_def registriesWith_def)
  have a1: "approvable (ClaimedLogin verifiedLogin)" "approvable (ClaimedSend someSend)"
    "\<not> approvable (ClaimedLogin unverifiedLogin)"
    by (simp_all add: approvable_def verifiedLogin_def unverifiedLogin_def)
  have t1: "\<forall>ev \<in> set scheduleUnlocked.
      fst (snd ev) - createdOf (ClaimedLogin verifiedLogin) \<le> PENDING_LOGIN_TTL_MS"
    by (simp add: scheduleUnlocked_def createdOf_def verifiedLogin_def PENDING_LOGIN_TTL_MS_def)
  have t2: "\<forall>ev \<in> set scheduleUnlocked.
      fst (snd ev) - createdOf (ClaimedSend someSend) \<le> PENDING_LOGIN_TTL_MS"
    by (simp add: scheduleUnlocked_def createdOf_def someSend_def PENDING_LOGIN_TTL_MS_def)
  have t3: "\<forall>ev \<in> set scheduleUnlocked.
      fst (snd ev) - createdOf (ClaimedLogin unverifiedLogin) \<le> PENDING_LOGIN_TTL_MS"
    by (simp add: scheduleUnlocked_def createdOf_def verifiedLogin_def unverifiedLogin_def
        PENDING_LOGIN_TTL_MS_def)
  have dl: "isDone (c_first ?L)" "isDone (c_second ?L)"
    "c_first ?L = Done None (Fail NoPendingLogin)"
    "c_second ?L = Done (Some (ClaimedLogin verifiedLogin)) (Ok [])"
    by code_simp+
  have ds: "isDone (c_first ?S)" "isDone (c_second ?S)"
    by code_simp+
  have du: "isDone (c_first ?U)" "isDone (c_second ?U)"
    by code_simp+
  from approval_claimed_once[OF e1 t1, of ?L workOk] a1(1) dl(1,2)
  have l: "oneClaimOneNotFound workOk (ClaimedLogin verifiedLogin) NoPendingLogin
        (c_first ?L) (c_second ?L)
    \<and> entryOf (DAPP_APPROVE requestId1) (c_regs ?L) = None"
    by (simp add: raceOutcome_def notFoundOf_def)
  from approval_claimed_once[OF e2 t2, of ?S workOk] a1(2) ds
  have s: "oneClaimOneNotFound workOk (ClaimedSend someSend) NoPendingSend
        (c_first ?S) (c_second ?S)
    \<and> entryOf (DAPP_APPROVE_SEND requestId1) (c_regs ?S) = None"
    by (simp add: raceOutcome_def notFoundOf_def)
  from approval_claimed_once[OF e3 t3, of ?U workOk] a1(3) du
  have u: "entryOf (DAPP_APPROVE requestId1) (c_regs ?U) = Some (ClaimedLogin unverifiedLogin)
    \<and> c_first ?U = Done None (Fail SignatureNotVerified)
    \<and> c_second ?U = Done None (Fail SignatureNotVerified)"
    by (simp add: raceOutcome_def)
  from l s u dl show ?thesis by (auto simp: entryOf_def)
qed

text \<open>
  C7 as stated fails in two ways. For a pending login whose signature is not verified,
  both calls find the entry, both are refused, none claims it and the entry stays in
  the registry. And for a verified login while the wallet is locked, the call that
  claims the entry deletes it and then answers "Wallet is locked", the other one finds
  none: neither call succeeds, and the entry is gone.
\<close>

theorem approval_unverified_or_locked_counterexample:
  "c_first (raceOutcome scheduleUnlocked unverifiedLogin (DAPP_APPROVE requestId1))
     = Done None (Fail SignatureNotVerified)
   \<and> c_second (raceOutcome scheduleUnlocked unverifiedLogin (DAPP_APPROVE requestId1))
     = Done None (Fail SignatureNotVerified)
   \<and> pendingLogins (c_regs (raceOutcome scheduleUnlocked unverifiedLogin (DAPP_APPROVE requestId1)))
        requestId1 = Some unverifiedLogin
   \<and> \<not> oneClaimOneNotFound workOk (ClaimedLogin unverifiedLogin) NoPendingLogin
        (c_first (raceOutcome scheduleUnlocked unverifiedLogin (DAPP_APPROVE requestId1)))
        (c_second (raceOutcome scheduleUnlocked unverifiedLogin (DAPP_APPROVE requestId1)))
   \<and> c_first (raceOutcome scheduleLocked verifiedLogin (DAPP_APPROVE requestId1))
     = Done None (Fail NoPendingLogin)
   \<and> c_second (raceOutcome scheduleLocked verifiedLogin (DAPP_APPROVE requestId1))
     = Done (Some (ClaimedLogin verifiedLogin)) (Fail WalletLocked)
   \<and> \<not> succeeded (c_first (raceOutcome scheduleLocked verifiedLogin (DAPP_APPROVE requestId1)))
   \<and> \<not> succeeded (c_second (raceOutcome scheduleLocked verifiedLogin (DAPP_APPROVE requestId1)))
   \<and> pendingLogins (c_regs (raceOutcome scheduleLocked verifiedLogin (DAPP_APPROVE requestId1)))
        requestId1 = None"
proof -
  let ?U = "raceOutcome scheduleUnlocked unverifiedLogin (DAPP_APPROVE requestId1)"
  let ?K = "raceOutcome scheduleLocked verifiedLogin (DAPP_APPROVE requestId1)"
  have f: "c_first ?U = Done None (Fail SignatureNotVerified)"
    by code_simp
  have s: "c_second ?U = Done None (Fail SignatureNotVerified)"
    by code_simp
  have r: "pendingLogins (c_regs ?U) requestId1 = Some unverifiedLogin"
    by code_simp
  have n: "\<not> oneClaimOneNotFound workOk (ClaimedLogin unverifiedLogin) NoPendingLogin
        (c_first ?U) (c_second ?U)"
    using f s by (simp add: oneClaimOneNotFound_def)
  have k1: "c_first ?K = Done None (Fail NoPendingLogin)"
    by code_simp
  have k2: "c_second ?K = Done (Some (ClaimedLogin verifiedLogin)) (Fail WalletLocked)"
    by code_simp
  have k3: "pendingLogins (c_regs ?K) requestId1 = None"
    by code_simp
  have k4: "\<not> succeeded (c_first ?K)" "\<not> succeeded (c_second ?K)"
    using k1 k2 by (simp_all add: succeeded_def)
  from f s r n k1 k2 k3 k4 show ?thesis by simp
qed

section \<open>Properties of the challenge signature verification\<close>

lemma set_searchHeights:
  assumes "0 \<le> H"
  shows "set (searchHeights H) = codeHeights H"
proof (intro set_eqI iffI)
  fix h
  assume "h \<in> set (searchHeights H)"
  then show "h \<in> codeHeights H"
    using assms by (auto simp: searchHeights_def codeHeights_def split: if_splits)
next
  fix h
  assume "h \<in> codeHeights H"
  then have a: "\<bar>h - H\<bar> \<le> 5" "h = H \<or> 0 < h" by (simp_all add: codeHeights_def)
  then have "h = H \<or> h = H + 1 \<or> h = H + 2 \<or> h = H + 3 \<or> h = H + 4 \<or> h = H + 5
     \<or> (h = H - 1 \<and> 0 < H - 1) \<or> (h = H - 2 \<and> 0 < H - 2) \<or> (h = H - 3 \<and> 0 < H - 3)
     \<or> (h = H - 4 \<and> 0 < H - 4) \<or> (h = H - 5 \<and> 0 < H - 5)"
    by presburger
  then show "h \<in> set (searchHeights H)"
    by (auto simp: searchHeights_def)
qed

lemma set_hashVersions: "set (hashVersions v) = bothVersions v"
  by (simp add: hashVersions_def bothVersions_def)

lemma tryHeights_iff:
  "tryHeights recover request sig prim v hs
     \<longleftrightarrow> (\<exists>h \<in> set hs. \<exists>a. recoveredAddress recover request sig h v = Some a \<and> a \<in> set prim)"
  by (induction hs) (auto split: option.splits)

lemma tryVersions_iff:
  "tryVersions recover request sig prim hs vs
     \<longleftrightarrow> (\<exists>v \<in> set vs. tryHeights recover request sig prim v hs)"
  by (induction vs) auto

lemma parse_height_nonneg:
  "parseIdentitySignature sigBuf = Some sig \<Longrightarrow> 0 \<le> is_sigBlockHeight sig"
  by (auto simp: parseIdentitySignature_def Let_def split: option.splits if_splits)

text \<open>
  C6, as amended. verifyChallengeSignature accepts if and only if the request has a
  signature that decodes, and some height and hash version of the search space of the code
  (the signed height, and the heights at distance 1 to 5 from it that are positive; the
  declared version and the other one) give a recovered address that is among the primary
  addresses of the identity.
\<close>

theorem verifyChallengeSignature_iff:
  "verifyChallengeSignature recover parsed identity
     \<longleftrightarrow> (\<exists>request sigBuf primaryAddresses sig h v a.
           parsed = Some request \<and> rq_signature request = Some sigBuf
         \<and> identity = Some primaryAddresses
         \<and> parseIdentitySignature sigBuf = Some sig
         \<and> h \<in> codeHeights (is_sigBlockHeight sig)
         \<and> v \<in> bothVersions (is_sigVersion sig)
         \<and> recoveredAddress recover request sig h v = Some a
         \<and> a \<in> set primaryAddresses)"
proof (cases parsed)
  case None
  then show ?thesis by (simp add: verifyChallengeSignature_def)
next
  case (Some request)
  note rq = Some
  show ?thesis
  proof (cases "rq_signature request")
    case None
    with rq show ?thesis by (simp add: verifyChallengeSignature_def)
  next
    case (Some sigBuf)
    note sb = Some
    show ?thesis
    proof (cases identity)
      case None
      with rq sb show ?thesis by (simp add: verifyChallengeSignature_def)
    next
      case (Some prim)
      note pr = Some
      show ?thesis
      proof (cases "parseIdentitySignature sigBuf")
        case None
        with rq sb pr show ?thesis by (simp add: verifyChallengeSignature_def)
      next
        case (Some sig)
        have hs: "set (searchHeights (is_sigBlockHeight sig)) = codeHeights (is_sigBlockHeight sig)"
          by (rule set_searchHeights[OF parse_height_nonneg[OF Some]])
        have "verifyChallengeSignature recover parsed identity
            \<longleftrightarrow> prim \<noteq> [] \<and> (\<exists>v \<in> bothVersions (is_sigVersion sig).
                  \<exists>h \<in> codeHeights (is_sigBlockHeight sig).
                  \<exists>a. recoveredAddress recover request sig h v = Some a \<and> a \<in> set prim)"
          using rq sb pr Some
          by (simp add: verifyChallengeSignature_def tryVersions_iff tryHeights_iff hs
              set_hashVersions)
        also have "\<dots> \<longleftrightarrow> (\<exists>v \<in> bothVersions (is_sigVersion sig).
                  \<exists>h \<in> codeHeights (is_sigBlockHeight sig).
                  \<exists>a. recoveredAddress recover request sig h v = Some a \<and> a \<in> set prim)"
          by auto
        finally show ?thesis using rq sb pr Some by auto
      qed
    qed
  qed
qed

lemma parse_signatureAtHeight3:
  "parseIdentitySignature signatureAtHeight3 = Some parsedAtHeight3"
  by (simp add: parseIdentitySignature_def readUInt8_def readUInt32LE_def
      signatureAtHeight3_def parsedAtHeight3_def Let_def)

lemmas verify_example_defs = verifyChallengeSignature_def requestSignedAt_def
  parse_signatureAtHeight3 parsedAtHeight3_def searchHeights_def hashVersions_def
  recoveredAddress_def recoverSigner_def addrS_def addrR_def

text \<open>
  C6 on two runs, for a signature that declares height 3 and version 1: a signer who
  used height 8 and version 2 is accepted, one who used height 9 is not.
\<close>

theorem verifyChallengeSignature_iff_witness:
  "verifyChallengeSignature recoverSigner (Some (requestSignedAt 8 2)) (Some [addrS])
   \<and> (\<exists>sig h v a. parseIdentitySignature signatureAtHeight3 = Some sig
         \<and> h \<in> codeHeights (is_sigBlockHeight sig)
         \<and> v \<in> bothVersions (is_sigVersion sig)
         \<and> recoveredAddress recoverSigner (requestSignedAt 8 2) sig h v = Some a
         \<and> a \<in> set [addrS])
   \<and> \<not> verifyChallengeSignature recoverSigner (Some (requestSignedAt 9 2)) (Some [addrS])"
proof -
  have acc: "verifyChallengeSignature recoverSigner (Some (requestSignedAt 8 2)) (Some [addrS])"
    by (simp add: verify_example_defs)
  have rej: "\<not> verifyChallengeSignature recoverSigner (Some (requestSignedAt 9 2)) (Some [addrS])"
    by (simp add: verify_example_defs)
  have sg: "rq_signature (requestSignedAt 8 2) = Some signatureAtHeight3"
    by (simp add: requestSignedAt_def)
  from acc sg
    verifyChallengeSignature_iff[of recoverSigner "Some (requestSignedAt 8 2)" "Some [addrS]"]
  have "\<exists>sig h v a. parseIdentitySignature signatureAtHeight3 = Some sig
         \<and> h \<in> codeHeights (is_sigBlockHeight sig)
         \<and> v \<in> bothVersions (is_sigVersion sig)
         \<and> recoveredAddress recoverSigner (requestSignedAt 8 2) sig h v = Some a
         \<and> a \<in> set [addrS]"
    by auto
  with acc rej show ?thesis by blast
qed

text \<open>
  C6 as stated fails at height 0: for a signature that declares height 3, the pair of
  height 0 and version 1 is in the search space of the specification (0 is not negative)
  and recovers an authorised address, yet the verification returns false.
\<close>

theorem verifyChallengeSignature_height_zero_counterexample:
  "\<not> verifyChallengeSignature recoverSigner (Some (requestSignedAt 0 1)) (Some [addrS])
   \<and> rq_signature (requestSignedAt 0 1) = Some signatureAtHeight3
   \<and> parseIdentitySignature signatureAtHeight3 = Some parsedAtHeight3
   \<and> 0 \<in> specHeights (is_sigBlockHeight parsedAtHeight3)
   \<and> 1 \<in> bothVersions (is_sigVersion parsedAtHeight3)
   \<and> recoveredAddress recoverSigner (requestSignedAt 0 1) parsedAtHeight3 0 1 = Some addrS
   \<and> addrS \<in> set [addrS]"
proof -
  have rej: "\<not> verifyChallengeSignature recoverSigner (Some (requestSignedAt 0 1)) (Some [addrS])"
    by (simp add: verify_example_defs)
  have sg: "rq_signature (requestSignedAt 0 1) = Some signatureAtHeight3"
    by (simp add: requestSignedAt_def)
  have h: "0 \<in> specHeights (is_sigBlockHeight parsedAtHeight3)"
    by (simp add: specHeights_def parsedAtHeight3_def)
  have v: "1 \<in> bothVersions (is_sigVersion parsedAtHeight3)"
    by (simp add: bothVersions_def parsedAtHeight3_def)
  have rc: "recoveredAddress recoverSigner (requestSignedAt 0 1) parsedAtHeight3 0 1 = Some addrS"
    by (simp add: recoveredAddress_def requestSignedAt_def recoverSigner_def)
  from rej sg parse_signatureAtHeight3 h v rc show ?thesis by simp
qed

end
